theory Spec2Isabelle
  imports Main "HOL-Library.Sublist"
begin

section \<open>Python strings and text files\<close>

text \<open>
  A Python \<open>str\<close> is modelled as a \<open>string\<close>, one \<open>char\<close> per code point, so the
  strings of the model are the Python strings whose code points lie in U+0000..U+00FF.
  Slices and lengths count code points, as Python does.
\<close>

definition LF :: char where "LF = CHR 0x0A"
definition CR :: char where "CR = CHR 0x0D"

text \<open>\<open>str.isspace\<close> on one character, for the code points below U+0100.\<close>

definition py_isspace :: "char \<Rightarrow> bool" where
  "py_isspace c = (c \<in> set [CHR 0x09, CHR 0x0A, CHR 0x0B, CHR 0x0C, CHR 0x0D,
                              CHR 0x1C, CHR 0x1D, CHR 0x1E, CHR 0x1F, CHR 0x20,
                              CHR 0x85, CHR 0xA0])"

text \<open>\<open>s.strip()\<close> with no argument removes leading and trailing whitespace.\<close>

definition py_strip :: "string \<Rightarrow> string" where
  "py_strip s = rev (dropWhile py_isspace (rev (dropWhile py_isspace s)))"

text \<open>
  \<open>str.splitlines()\<close> (line ends dropped). The line boundaries below U+0100 are
  LF, CR, CR LF, VT, FF, FS, GS, RS and NEL.
\<close>

definition is_linebreak :: "char \<Rightarrow> bool" where
  "is_linebreak c = (c \<in> set [CHR 0x0A, CHR 0x0B, CHR 0x0C, CHR 0x0D,
                                CHR 0x1C, CHR 0x1D, CHR 0x1E, CHR 0x85])"

fun splitlines_from :: "string \<Rightarrow> string \<Rightarrow> string list" where
  "splitlines_from cur [] = (if cur = [] then [] else [cur])"
| "splitlines_from cur [c] =
     (if is_linebreak c then [cur] else [cur @ [c]])"
| "splitlines_from cur (c # d # cs) =
     (if c = CR \<and> d = LF then cur # splitlines_from [] cs
      else if is_linebreak c then cur # splitlines_from [] (d # cs)
      else splitlines_from (cur @ [c]) (d # cs))"

definition splitlines :: "string \<Rightarrow> string list" where
  "splitlines s = splitlines_from [] s"

text \<open>
  A file opened in text mode for reading (\<open>open(path, 'r')\<close>) translates CR LF and a
  lone CR to LF; \<open>readlines()\<close> then cuts after every LF and keeps the line ends.
\<close>

fun universal_newlines :: "string \<Rightarrow> string" where
  "universal_newlines [] = []"
| "universal_newlines [c] = (if c = CR then [LF] else [c])"
| "universal_newlines (c # d # cs) =
     (if c = CR \<and> d = LF then LF # universal_newlines cs
      else if c = CR then LF # universal_newlines (d # cs)
      else c # universal_newlines (d # cs))"

fun lines_keepends :: "string \<Rightarrow> string \<Rightarrow> string list" where
  "lines_keepends cur [] = (if cur = [] then [] else [cur])"
| "lines_keepends cur (c # cs) =
     (if c = LF then (cur @ [c]) # lines_keepends [] cs
      else lines_keepends (cur @ [c]) cs)"

definition readlines :: "string \<Rightarrow> string list" where
  "readlines content = lines_keepends [] (universal_newlines content)"

text \<open>
  The file system: a path either names no file or holds a text. Writing in text mode
  stores the text as it is (POSIX line ends).
\<close>

type_synonym filesystem = "string \<Rightarrow> string option"

section \<open>JSON values and the json library\<close>

text \<open>
  The value \<open>json.loads\<close> returns: \<open>None\<close>, a \<open>bool\<close>, an \<open>int\<close> (unbounded), a
  \<open>str\<close>, a \<open>list\<close>, or a \<open>dict\<close> with string keys in insertion order. Numbers with a
  fraction or an exponent (Python floats) are not part of the model.
\<close>

datatype json =
    JNull
  | JBool bool
  | JInt int
  | JStr string
  | JArr "json list"
  | JObj "(string \<times> json) list"

definition DQ :: char where "DQ = CHR 0x22"
definition BSL :: char where "BSL = CHR 0x5C"

subsection \<open>json.dumps(obj, indent=2)\<close>

definition hex_digit :: "nat \<Rightarrow> char" where
  "hex_digit d = (if d < 10 then char_of (48 + d) else char_of (87 + d))"

text \<open>
  With \<open>ensure_ascii\<close> (the default) every character outside U+0020..U+007E, the
  double quote and the backslash are escaped.
\<close>

definition escape_char :: "char \<Rightarrow> string" where
  "escape_char c =
     (if c = DQ then [BSL, DQ]
      else if c = BSL then [BSL, BSL]
      else if c = CHR 0x0A then [BSL, CHR ''n'']
      else if c = CHR 0x0D then [BSL, CHR ''r'']
      else if c = CHR 0x09 then [BSL, CHR ''t'']
      else if c = CHR 0x08 then [BSL, CHR ''b'']
      else if c = CHR 0x0C then [BSL, CHR ''f'']
      else if 32 \<le> (of_char c :: nat) \<and> (of_char c :: nat) \<le> 126 then [c]
      else [BSL, CHR ''u'', CHR ''0'', CHR ''0'',
            hex_digit ((of_char c :: nat) div 16), hex_digit ((of_char c :: nat) mod 16)])"

definition encode_string :: "string \<Rightarrow> string" where
  "encode_string s = DQ # concat (map escape_char s) @ [DQ]"

fun show_nat :: "nat \<Rightarrow> string" where
  "show_nat n =
     (if n < 10 then [char_of (48 + n)]
      else show_nat (n div 10) @ [char_of (48 + n mod 10)])"

declare show_nat.simps [simp del]

definition show_int :: "int \<Rightarrow> string" where
  "show_int i = (if i < 0 then CHR ''-'' # show_nat (nat (- i)) else show_nat (nat i))"

definition newline_indent :: "nat \<Rightarrow> string" where
  "newline_indent level = LF # replicate (2 * level) (CHR '' '')"

fun join_with :: "'a list \<Rightarrow> 'a list list \<Rightarrow> 'a list" where
  "join_with sep [] = []"
| "join_with sep [x] = x"
| "join_with sep (x # y # ys) = x @ sep @ join_with sep (y # ys)"

fun dumps_at :: "nat \<Rightarrow> json \<Rightarrow> string" where
  "dumps_at level JNull = ''null''"
| "dumps_at level (JBool b) = (if b then ''true'' else ''false'')"
| "dumps_at level (JInt i) = show_int i"
| "dumps_at level (JStr s) = encode_string s"
| "dumps_at level (JArr xs) =
     (if xs = [] then ''[]''
      else ''['' @ newline_indent (Suc level)
           @ join_with ('','' @ newline_indent (Suc level)) (map (dumps_at (Suc level)) xs)
           @ newline_indent level @ '']'')"
| "dumps_at level (JObj kvs) =
     (if kvs = [] then ''{}''
      else ''{'' @ newline_indent (Suc level)
           @ join_with ('','' @ newline_indent (Suc level))
               (map (\<lambda>kv. encode_string (fst kv) @ '': '' @ dumps_at (Suc level) (snd kv)) kvs)
           @ newline_indent level @ ''}'')"

definition json_dumps :: "json \<Rightarrow> string" where
  "json_dumps obj = dumps_at 0 obj"

subsection \<open>json.loads\<close>

datatype token =
    TLBrace | TRBrace | TLBrack | TRBrack | TComma | TColon
  | TStr string | TInt int | TNull | TTrue | TFalse

definition is_json_ws :: "char \<Rightarrow> bool" where
  "is_json_ws c = (c = CHR '' '' \<or> c = CHR 0x09 \<or> c = CHR 0x0A \<or> c = CHR 0x0D)"

definition is_digit :: "char \<Rightarrow> bool" where
  "is_digit c = (48 \<le> (of_char c :: nat) \<and> (of_char c :: nat) \<le> 57)"

definition digit_val :: "char \<Rightarrow> nat" where
  "digit_val c = of_char c - 48"

definition hex_val :: "char \<Rightarrow> nat option" where
  "hex_val c =
     (let n = (of_char c :: nat) in
      if 48 \<le> n \<and> n \<le> 57 then Some (n - 48)
      else if 97 \<le> n \<and> n \<le> 102 then Some (n - 87)
      else if 65 \<le> n \<and> n \<le> 70 then Some (n - 55)
      else None)"

definition hex4 :: "char \<Rightarrow> char \<Rightarrow> char \<Rightarrow> char \<Rightarrow> nat option" where
  "hex4 a b c d =
     (case (hex_val a, hex_val b, hex_val c, hex_val d) of
        (Some w, Some x, Some y, Some z) \<Rightarrow> Some (((w * 16 + x) * 16 + y) * 16 + z)
      | _ \<Rightarrow> None)"

definition unescape :: "char \<Rightarrow> char option" where
  "unescape e =
     (if e = DQ then Some DQ
      else if e = BSL then Some BSL
      else if e = CHR ''/'' then Some (CHR ''/'')
      else if e = CHR ''b'' then Some (CHR 0x08)
      else if e = CHR ''f'' then Some (CHR 0x0C)
      else if e = CHR ''n'' then Some (CHR 0x0A)
      else if e = CHR ''r'' then Some (CHR 0x0D)
      else if e = CHR ''t'' then Some (CHR 0x09)
      else None)"

definition cons_result :: "'a \<Rightarrow> ('a list \<times> 'b) option \<Rightarrow> ('a list \<times> 'b) option" where
  "cons_result x r = (case r of None \<Rightarrow> None | Some (xs, rest) \<Rightarrow> Some (x # xs, rest))"

text \<open>
  The text of a string after its opening quote, up to the closing quote: the decoded
  string and what follows the closing quote. A raw control character is refused (the
  decoder is strict), an escape \<open>\uXXXX\<close> above U+00FF is outside the model's alphabet.
\<close>

fun lex_string :: "string \<Rightarrow> (string \<times> string) option" where
  "lex_string [] = None"
| "lex_string (c # cs) =
     (if c = DQ then Some ([], cs)
      else if c = BSL then
        (case cs of
           [] \<Rightarrow> None
         | e # es \<Rightarrow>
             if e = CHR ''u'' then
               (case es of
                  h1 # h2 # h3 # h4 # r \<Rightarrow>
                    (case hex4 h1 h2 h3 h4 of
                       None \<Rightarrow> None
                     | Some n \<Rightarrow> if n < 256 then cons_result (char_of n) (lex_string r) else None)
                | _ \<Rightarrow> None)
             else
               (case unescape e of
                  None \<Rightarrow> None
                | Some ch \<Rightarrow> cons_result ch (lex_string es)))
      else if (of_char c :: nat) < 32 then None
      else cons_result c (lex_string cs))"

text \<open>
  An integer literal \<open>-?(0|[1-9][0-9]*)\<close>: its value and the rest. What follows is lexed
  on its own, so a fraction or an exponent is refused there.
\<close>

fun digits_value :: "nat \<Rightarrow> string \<Rightarrow> nat" where
  "digits_value acc [] = acc"
| "digits_value acc (c # cs) = digits_value (acc * 10 + digit_val c) cs"

definition lex_nat :: "string \<Rightarrow> (nat \<times> string) option" where
  "lex_nat s =
     (case s of
        [] \<Rightarrow> None
      | c # cs \<Rightarrow>
          if c = CHR ''0'' then Some (0, cs)
          else if is_digit c then
            Some (digits_value 0 (c # takeWhile is_digit cs), dropWhile is_digit cs)
          else None)"

definition lex_number :: "string \<Rightarrow> (int \<times> string) option" where
  "lex_number s =
     (case s of
        [] \<Rightarrow> None
      | c # cs \<Rightarrow>
          if c = CHR ''-'' then
            (case lex_nat cs of None \<Rightarrow> None | Some (n, r) \<Rightarrow> Some (- int n, r))
          else
            (case lex_nat s of None \<Rightarrow> None | Some (n, r) \<Rightarrow> Some (int n, r)))"

lemma cons_result_rest:
  "cons_result x r = Some (ys, rest) \<Longrightarrow> \<exists>xs. r = Some (xs, rest)"
  by (auto simp: cons_result_def split: option.splits)

lemma lex_string_shorter:
  "lex_string s = Some (x, r) \<Longrightarrow> length r < length s"
proof (induction s arbitrary: x r rule: lex_string.induct)
  case 1
  then show ?case by simp
next
  case (2 c cs)
  show ?case
  proof (cases "c = DQ")
    case True
    with "2.prems" show ?thesis by simp
  next
    case notq: False
    show ?thesis
    proof (cases "c = BSL")
      case False
      with notq "2.prems" obtain xs where "lex_string cs = Some (xs, r)"
        by (auto split: if_splits dest: cons_result_rest)
      with "2.IH"(3) notq False "2.prems" have "length r < length cs"
        by (auto split: if_splits)
      then show ?thesis by simp
    next
      case True
      with notq "2.prems" obtain e es where cs: "cs = e # es"
        by (cases cs) auto
      show ?thesis
      proof (cases "e = CHR ''u''")
        case False
        with notq True cs "2.prems" obtain ch xs where
          "unescape e = Some ch" "lex_string es = Some (xs, r)"
          by (auto split: option.splits dest: cons_result_rest)
        with "2.IH"(2)[OF notq True cs False] have "length r < length es"
          by blast
        with cs show ?thesis by simp
      next
        case u: True
        with notq True cs "2.prems" obtain h1 h2 h3 h4 r0 n xs where
          es: "es = h1 # h2 # h3 # h4 # r0" and h: "hex4 h1 h2 h3 h4 = Some n" and
          n: "n < 256" and l: "lex_string r0 = Some (xs, r)"
          by (auto split: list.splits option.splits if_splits dest: cons_result_rest)
        have "length r < length r0"
          by (rule "2.IH"(1)[OF notq True cs u _ refl refl refl h n l]) (simp add: es)
        with cs es show ?thesis by simp
      qed
    qed
  qed
qed

lemma lex_nat_shorter: "lex_nat s = Some (n, r) \<Longrightarrow> length r < length s"
  by (auto simp: lex_nat_def split: list.splits if_splits
           intro: le_imp_less_Suc length_dropWhile_le)

lemma lex_number_shorter: "lex_number s = Some (i, r) \<Longrightarrow> length r < length s"
  by (auto simp: lex_number_def split: list.splits if_splits option.splits
           dest!: lex_nat_shorter)

function tokenize :: "string \<Rightarrow> token list option" where
  "tokenize [] = Some []"
| "tokenize (c # cs) =
     (if is_json_ws c then tokenize cs
      else if c = CHR ''{'' then map_option (Cons TLBrace) (tokenize cs)
      else if c = CHR ''}'' then map_option (Cons TRBrace) (tokenize cs)
      else if c = CHR ''['' then map_option (Cons TLBrack) (tokenize cs)
      else if c = CHR '']'' then map_option (Cons TRBrack) (tokenize cs)
      else if c = CHR '','' then map_option (Cons TComma) (tokenize cs)
      else if c = CHR '':'' then map_option (Cons TColon) (tokenize cs)
      else if c = DQ then
        (case lex_string cs of
           None \<Rightarrow> None
         | Some sr \<Rightarrow> map_option (Cons (TStr (fst sr))) (tokenize (snd sr)))
      else if c = CHR ''-'' \<or> is_digit c then
        (case lex_number (c # cs) of
           None \<Rightarrow> None
         | Some nr \<Rightarrow> map_option (Cons (TInt (fst nr))) (tokenize (snd nr)))
      else if take 4 (c # cs) = ''null'' then map_option (Cons TNull) (tokenize (drop 3 cs))
      else if take 4 (c # cs) = ''true'' then map_option (Cons TTrue) (tokenize (drop 3 cs))
      else if take 5 (c # cs) = ''false'' then map_option (Cons TFalse) (tokenize (drop 4 cs))
      else None)"
  by pat_completeness auto
termination
proof (relation "measure length")
  fix c cs sr
  assume "lex_string cs = Some sr"
  then have "length (snd sr) < length cs"
    using lex_string_shorter[of cs "fst sr" "snd sr"] by simp
  then show "(snd sr, c # cs) \<in> measure length" by simp
next
  fix c cs nr
  assume "lex_number (c # cs) = Some nr"
  then have "length (snd nr) < length (c # cs)"
    using lex_number_shorter[of "c # cs" "fst nr" "snd nr"] by simp
  then show "(snd nr, c # cs) \<in> measure length" by simp
qed auto

text \<open>
  A \<open>dict\<close> keeps a key at the place of its first insertion and the value of its last.
\<close>

fun dict_set :: "('k \<times> 'v) list \<Rightarrow> 'k \<Rightarrow> 'v \<Rightarrow> ('k \<times> 'v) list" where
  "dict_set [] k v = [(k, v)]"
| "dict_set (kv # d) k v = (if fst kv = k then (k, v) # d else kv # dict_set d k v)"

definition dict_of_pairs :: "('k \<times> 'v) list \<Rightarrow> ('k \<times> 'v) list" where
  "dict_of_pairs pairs = foldl (\<lambda>d kv. dict_set d (fst kv) (snd kv)) [] pairs"

text \<open>
  The grammar over tokens. The first argument bounds the depth of the calls; the number
  of calls on a token list never exceeds its length, so \<open>json_loads\<close> starts with enough.
\<close>

fun parse_value :: "nat \<Rightarrow> token list \<Rightarrow> (json \<times> token list) option"
  and parse_elements :: "nat \<Rightarrow> token list \<Rightarrow> (json list \<times> token list) option"
  and parse_members :: "nat \<Rightarrow> token list \<Rightarrow> ((string \<times> json) list \<times> token list) option"
where
  "parse_value 0 ts = None"
| "parse_value (Suc n) [] = None"
| "parse_value (Suc n) (t # ts) =
     (case t of
        TNull \<Rightarrow> Some (JNull, ts)
      | TTrue \<Rightarrow> Some (JBool True, ts)
      | TFalse \<Rightarrow> Some (JBool False, ts)
      | TInt i \<Rightarrow> Some (JInt i, ts)
      | TStr s \<Rightarrow> Some (JStr s, ts)
      | TLBrack \<Rightarrow>
          (case ts of
             TRBrack # r \<Rightarrow> Some (JArr [], r)
           | _ \<Rightarrow> (case parse_elements n ts of
                     None \<Rightarrow> None
                   | Some (vs, r) \<Rightarrow> Some (JArr vs, r)))
      | TLBrace \<Rightarrow>
          (case ts of
             TRBrace # r \<Rightarrow> Some (JObj [], r)
           | _ \<Rightarrow> (case parse_members n ts of
                     None \<Rightarrow> None
                   | Some (kvs, r) \<Rightarrow> Some (JObj (dict_of_pairs kvs), r)))
      | _ \<Rightarrow> None)"
| "parse_elements 0 ts = None"
| "parse_elements (Suc n) ts =
     (case parse_value n ts of
        None \<Rightarrow> None
      | Some (v, r) \<Rightarrow>
          (case r of
             TComma # r' \<Rightarrow> cons_result v (parse_elements n r')
           | TRBrack # r' \<Rightarrow> Some ([v], r')
           | _ \<Rightarrow> None))"
| "parse_members 0 ts = None"
| "parse_members (Suc n) ts =
     (case ts of
        TStr k # TColon # r \<Rightarrow>
          (case parse_value n r of
             None \<Rightarrow> None
           | Some (v, r') \<Rightarrow>
               (case r' of
                  TComma # r'' \<Rightarrow> cons_result (k, v) (parse_members n r'')
                | TRBrace # r'' \<Rightarrow> Some ([(k, v)], r'')
                | _ \<Rightarrow> None))
      | _ \<Rightarrow> None)"

definition json_loads :: "string \<Rightarrow> json option" where
  "json_loads s =
     (case tokenize s of
        None \<Rightarrow> None
      | Some ts \<Rightarrow>
          (case parse_value (Suc (length ts)) ts of
             Some (v, []) \<Rightarrow> Some v
           | _ \<Rightarrow> None))"

section \<open>file\_utils.py\<close>

definition get_line_count :: "filesystem \<Rightarrow> string \<Rightarrow> nat" where
  "get_line_count fs file_path =
     (case fs file_path of
        None \<Rightarrow> 0
      | Some content \<Rightarrow> length (readlines content))"

definition update_shortcuts_safely :: "filesystem \<Rightarrow> string \<Rightarrow> string \<Rightarrow> bool \<times> filesystem" where
  "update_shortcuts_safely fs file_path updated_content =
     (let before_lines = get_line_count fs file_path;
          after_lines = length (splitlines updated_content)
      in if after_lines < before_lines then (False, fs)
         else (True, fs(file_path \<mapsto> updated_content)))"

section \<open>Python operations on parsed values\<close>

datatype exc = FileNotFoundError | JSONDecodeError | AttributeError | TypeError | KeyError

text \<open>Truth value testing: \<open>None\<close>, \<open>False\<close>, 0 and every empty container are false.\<close>

fun py_truthy :: "json \<Rightarrow> bool" where
  "py_truthy JNull = False"
| "py_truthy (JBool b) = b"
| "py_truthy (JInt i) = (i \<noteq> 0)"
| "py_truthy (JStr s) = (s \<noteq> [])"
| "py_truthy (JArr xs) = (xs \<noteq> [])"
| "py_truthy (JObj kvs) = (kvs \<noteq> [])"

text \<open>
  The operator \<open>==\<close>: a \<open>bool\<close> is the integer 0 or 1, lists are compared element by
  element, dicts by their keys and the values under them whatever the order, and values
  of different kinds are unequal.
\<close>

fun py_eq :: "json \<Rightarrow> json \<Rightarrow> bool"
  and py_eq_list :: "json list \<Rightarrow> json list \<Rightarrow> bool"
  and py_eq_items :: "(string \<times> json) list \<Rightarrow> (string \<times> json) list \<Rightarrow> bool"
where
  "py_eq JNull b = (b = JNull)"
| "py_eq (JBool x) b =
     (case b of JBool y \<Rightarrow> x = y | JInt j \<Rightarrow> (if x then 1 else 0) = j | _ \<Rightarrow> False)"
| "py_eq (JInt i) b =
     (case b of JInt j \<Rightarrow> i = j | JBool y \<Rightarrow> i = (if y then 1 else 0) | _ \<Rightarrow> False)"
| "py_eq (JStr s) b = (b = JStr s)"
| "py_eq (JArr xs) b = (case b of JArr ys \<Rightarrow> py_eq_list xs ys | _ \<Rightarrow> False)"
| "py_eq (JObj kvs) b =
     (case b of JObj d \<Rightarrow> length kvs = length d \<and> py_eq_items kvs d | _ \<Rightarrow> False)"
| "py_eq_list [] ys = (ys = [])"
| "py_eq_list (x # xs) ys =
     (case ys of [] \<Rightarrow> False | y # ys' \<Rightarrow> py_eq x y \<and> py_eq_list xs ys')"
| "py_eq_items [] d = True"
| "py_eq_items ((k, v) # kvs) d =
     ((case map_of d k of None \<Rightarrow> False | Some v' \<Rightarrow> py_eq v v') \<and> py_eq_items kvs d)"

text \<open>\<open>d.get(key)\<close> on a dict: the value, or \<open>None\<close>.\<close>

definition dict_get :: "(string \<times> json) list \<Rightarrow> string \<Rightarrow> json" where
  "dict_get d key = (case map_of d key of None \<Rightarrow> JNull | Some v \<Rightarrow> v)"

text \<open>\<open>x[key]\<close> with a string key, and \<open>x[0]\<close>; \<open>None\<close> stands for the exception raised.\<close>

fun subscript_key :: "json \<Rightarrow> string \<Rightarrow> json option" where
  "subscript_key (JObj d) key = map_of d key"
| "subscript_key _ key = None"

fun subscript_0 :: "json \<Rightarrow> json option" where
  "subscript_0 (JArr (x # xs)) = Some x"
| "subscript_0 (JStr (c # cs)) = Some (JStr [c])"
| "subscript_0 _ = None"

text \<open>Lists and dicts are unhashable: looking one up in a dict raises \<open>TypeError\<close>.\<close>

fun py_hashable :: "json \<Rightarrow> bool" where
  "py_hashable (JArr xs) = False"
| "py_hashable (JObj kvs) = False"
| "py_hashable _ = True"

text \<open>What a \<open>for\<close> loop over a value visits: the elements of a list, the keys of a dict,
  the characters of a string; the other values are not iterable.\<close>

fun py_iter :: "json \<Rightarrow> exc + json list" where
  "py_iter (JArr xs) = Inr xs"
| "py_iter (JObj kvs) = Inr (map (\<lambda>kv. JStr (fst kv)) kvs)"
| "py_iter (JStr s) = Inr (map (\<lambda>c. JStr [c]) s)"
| "py_iter _ = Inl TypeError"

text \<open>
  The dict \<open>shortcuts\<close> in memory. Its keys come from the store file as strings; the one
  key the workflow may add is the candidate's category, whatever hashable value that is.
  \<open>json.dumps\<close> writes a key that is not a string as its JSON text.
\<close>

type_synonym pydict = "(json \<times> json) list"

definition pydict_of :: "(string \<times> json) list \<Rightarrow> pydict" where
  "pydict_of d = map (\<lambda>kv. (JStr (fst kv), snd kv)) d"

fun key_str :: "json \<Rightarrow> string" where
  "key_str (JStr s) = s"
| "key_str (JInt i) = show_int i"
| "key_str (JBool b) = (if b then ''true'' else ''false'')"
| "key_str _ = ''null''"

definition dumps_pydict :: "pydict \<Rightarrow> string" where
  "dumps_pydict d = json_dumps (JObj (map (\<lambda>kv. (key_str (fst kv), snd kv)) d))"

section \<open>Files, the remote store, the user and the language model\<close>

definition SHORTCUTS_FILE :: string where "SHORTCUTS_FILE = ''shortcuts.json''"
definition NEW_COMMAND_FILE :: string where "NEW_COMMAND_FILE = ''new_command.txt''"

text \<open>\<open>json.load(f)\<close> on a file opened for reading.\<close>

definition json_load :: "filesystem \<Rightarrow> string \<Rightarrow> exc + json" where
  "json_load fs file_path =
     (case fs file_path of
        None \<Rightarrow> Inl FileNotFoundError
      | Some content \<Rightarrow>
          (case json_loads (universal_newlines content) of
             None \<Rightarrow> Inl JSONDecodeError
           | Some v \<Rightarrow> Inr v))"

text \<open>The two \<open>click.confirm\<close> prompts of the workflow.\<close>

datatype prompt = ConfirmCreateCategory | ConfirmApprove

text \<open>
  What \<open>requests.post\<close>, \<open>raise_for_status\<close> and \<open>response.json()\<close> give: one of the two
  handled failures, or the parsed body.
\<close>

datatype post_result = HTTPError | OtherException | ResponseJson json

text \<open>
  The state a cycle works on: the files, the record the remote store holds, and the
  prompts shown so far (oldest first).
\<close>

record world =
  files :: filesystem
  remote :: json
  asked :: "prompt list"

text \<open>
  What the outside decides: the reply to the request built from the raw command and the
  store, the user's answer to each prompt, and whether the upload request succeeds.
\<close>

record environment =
  llm_post :: "string \<Rightarrow> json \<Rightarrow> post_result"
  confirm :: "prompt \<Rightarrow> bool"
  put_succeeds :: bool

section \<open>json\_validator.py\<close>

datatype validation_message = JSON_is_valid | Invalid_JSON | File_not_found string

definition validate_json :: "filesystem \<Rightarrow> string \<Rightarrow> bool \<times> validation_message" where
  "validate_json fs file_path =
     (case json_load fs file_path of
        Inr v \<Rightarrow> (True, JSON_is_valid)
      | Inl FileNotFoundError \<Rightarrow> (False, File_not_found file_path)
      | Inl x \<Rightarrow> (False, Invalid_JSON))"

section \<open>sync\_local\_to\_cloud.py and sync\_cloud\_to\_local.py\<close>

text \<open>
  The push reads the store file and replaces the remote record by its parsed content;
  a missing or undecodable file and a failed request leave the remote record as it is.
\<close>

definition sync_local_to_cloud :: "bool \<Rightarrow> world \<Rightarrow> world" where
  "sync_local_to_cloud put_ok w =
     (case json_load (files w) ''shortcuts.json'' of
        Inl x \<Rightarrow> w
      | Inr data \<Rightarrow> if put_ok then w\<lparr>remote := data\<rparr> else w)"

text \<open>
  What \<open>requests.get\<close>, \<open>raise_for_status\<close> and \<open>response.json()\<close> give the pull: a failed
  request, a body that is not JSON, or the parsed body.
\<close>

datatype get_result = RequestException | BodyNotJson | BodyJson json

text \<open>
  The message the pull prints. The error \<open>response.json()\<close> raises on a body that is not
  JSON is a \<open>requests.exceptions.RequestException\<close>, so the first handler takes it and
  the message is the one of a failed request; the handler for \<open>json.JSONDecodeError\<close>
  comes second and is never reached from it.
\<close>

datatype pull_report =
    Synced | NoRecordFound | RequestError | UnexpectedError

definition sync_cloud_to_local :: "get_result \<Rightarrow> world \<Rightarrow> pull_report \<times> world" where
  "sync_cloud_to_local response w =
     (case response of
        RequestException \<Rightarrow> (RequestError, w)
      | BodyNotJson \<Rightarrow> (RequestError, w)
      | BodyJson body \<Rightarrow>
          (case body of
             JObj d \<Rightarrow>
               (let cloud_data = dict_get d ''record'' in
                if py_truthy cloud_data
                then (Synced, w\<lparr>files := (files w)(''shortcuts.json'' \<mapsto> json_dumps cloud_data)\<rparr>)
                else (NoRecordFound, w))
           | _ \<Rightarrow> (UnexpectedError, w)))"


section \<open>agent.py\<close>

subsection \<open>format\_command\_with\_llm\<close>

text \<open>\<open>response_json["choices"][0]["message"]["content"]\<close>\<close>

definition response_content :: "json \<Rightarrow> json option" where
  "response_content response_json =
     (case subscript_key response_json ''choices'' of
        None \<Rightarrow> None
      | Some choices \<Rightarrow>
          (case subscript_0 choices of
             None \<Rightarrow> None
           | Some choice \<Rightarrow>
               (case subscript_key choice ''message'' of
                  None \<Rightarrow> None
                | Some message \<Rightarrow> subscript_key message ''content'')))"

text \<open>
  The store file is read, and the keys of the store are taken, before the \<open>try\<close> block:
  a missing file, a file that is not JSON and a store that is not a dict raise. Every
  failure of the request itself is handled and gives \<open>None\<close>.
\<close>

definition format_command_with_llm :: "environment \<Rightarrow> filesystem \<Rightarrow> string \<Rightarrow> exc + json" where
  "format_command_with_llm e fs raw_command =
     (case json_load fs SHORTCUTS_FILE of
        Inl x \<Rightarrow> Inl x
      | Inr shortcuts_data \<Rightarrow>
          (case shortcuts_data of
             JObj d \<Rightarrow>
               (case llm_post e raw_command shortcuts_data of
                  HTTPError \<Rightarrow> Inr JNull
                | OtherException \<Rightarrow> Inr JNull
                | ResponseJson response_json \<Rightarrow>
                    (case response_content response_json of
                       None \<Rightarrow> Inr JNull
                     | Some content \<Rightarrow> Inr content))
           | _ \<Rightarrow> Inl AttributeError))"

subsection \<open>\_process\_command\_logic\<close>

text \<open>
  The function returns \<open>None\<close> at each of its exits; the outcome names the exit taken.
  \<open>Committed\<close> carries the line difference the success message reports.
\<close>

datatype outcome =
    NoCommand
  | FormatterFailure
  | MalformedLLMOutput
  | MissingCategory
  | UserRejectedCategory
  | DuplicateCommand
  | UserRejectedCandidate
  | WriteGuardViolation
  | PostWriteCorruption
  | Committed int

definition FENCE :: string where
  "FENCE = [CHR 0x60, CHR 0x60, CHR 0x60] @ ''json''"

text \<open>Lines 281 to 283: the text handed to \<open>json.loads\<close>, and its result.\<close>

definition strip_fence :: "string \<Rightarrow> string" where
  "strip_fence formatted_command_str =
     (if prefix FENCE (py_strip formatted_command_str)
      then py_strip (drop 7 (take (length (py_strip formatted_command_str) - 3)
                                  (py_strip formatted_command_str)))
      else formatted_command_str)"

definition parse_llm_output :: "string \<Rightarrow> json option" where
  "parse_llm_output formatted_command_str = json_loads (strip_fence formatted_command_str)"

text \<open>Lines 366 to 381: the loop over the entries of the category.\<close>

fun find_duplicate :: "json list \<Rightarrow> json \<Rightarrow> exc + bool" where
  "find_duplicate [] proposed_command_text = Inr False"
| "find_duplicate (existing_command # rest) proposed_command_text =
     (case existing_command of
        JObj d \<Rightarrow>
          if py_eq (dict_get d ''command'') proposed_command_text then Inr True
          else find_duplicate rest proposed_command_text
      | _ \<Rightarrow> Inl AttributeError)"

text \<open>Lines 420 to 531: the commit, the validation and the push.\<close>

definition commit :: "environment \<Rightarrow> world \<Rightarrow> pydict \<Rightarrow> (string \<times> json) list \<Rightarrow> json
                        \<Rightarrow> (exc + outcome) \<times> world" where
  "commit e w shortcuts formatted_command category =
     (let lines_before = get_line_count (files w) SHORTCUTS_FILE;
          command_to_add = JObj (filter (\<lambda>kv. fst kv \<noteq> ''category'') formatted_command)
      in case map_of shortcuts category of
           None \<Rightarrow> (Inl KeyError, w)
         | Some (JArr entries) \<Rightarrow>
             (let updated = dict_set shortcuts category (JArr (entries @ [command_to_add]));
                  updated_content = dumps_pydict updated;
                  written = update_shortcuts_safely (files w) SHORTCUTS_FILE updated_content
              in if \<not> fst written then (Inr WriteGuardViolation, w)
                 else
                   (let w' = w\<lparr>files := snd written\<rparr>;
                        lines_after = get_line_count (files w') SHORTCUTS_FILE
                    in if \<not> fst (validate_json (files w') SHORTCUTS_FILE)
                       then (Inr PostWriteCorruption, w')
                       else (Inr (Committed (int lines_after - int lines_before)),
                             sync_local_to_cloud (put_succeeds e) w')))
         | Some _ \<Rightarrow> (Inl AttributeError, w))"

text \<open>Lines 360 to 414: the duplicate check and the approval.\<close>

definition check_and_approve :: "environment \<Rightarrow> world \<Rightarrow> pydict \<Rightarrow> (string \<times> json) list \<Rightarrow> json
                        \<Rightarrow> (exc + outcome) \<times> world" where
  "check_and_approve e w shortcuts formatted_command category =
     (let proposed_command_text = dict_get formatted_command ''command'';
          duplicate =
            (case map_of shortcuts category of
               None \<Rightarrow> Inr False
             | Some entries \<Rightarrow>
                 (case py_iter entries of
                    Inl x \<Rightarrow> Inl x
                  | Inr items \<Rightarrow> find_duplicate items proposed_command_text))
      in case duplicate of
           Inl x \<Rightarrow> (Inl x, w)
         | Inr True \<Rightarrow> (Inr DuplicateCommand, w)
         | Inr False \<Rightarrow>
             (let w' = w\<lparr>asked := asked w @ [ConfirmApprove]\<rparr>
              in if \<not> confirm e ConfirmApprove then (Inr UserRejectedCandidate, w')
                 else commit e w' shortcuts formatted_command category))"

text \<open>Lines 300 to 354: the category of the candidate.\<close>

definition resolve_category :: "environment \<Rightarrow> world \<Rightarrow> pydict \<Rightarrow> json
                        \<Rightarrow> (exc + outcome) \<times> world" where
  "resolve_category e w shortcuts formatted_command =
     (case formatted_command of
        JObj c \<Rightarrow>
          (let category = dict_get c ''category''
           in if \<not> py_truthy category then (Inr MissingCategory, w)
              else if \<not> py_hashable category then (Inl TypeError, w)
              else if map_of shortcuts category = None then
                (let w' = w\<lparr>asked := asked w @ [ConfirmCreateCategory]\<rparr>
                 in if \<not> confirm e ConfirmCreateCategory then (Inr UserRejectedCategory, w')
                    else check_and_approve e w' (dict_set shortcuts category (JArr [])) c category)
              else check_and_approve e w shortcuts c category)
      | _ \<Rightarrow> (Inl AttributeError, w))"

text \<open>
  The whole function. The store read at line 303 is a dict: on any other store
  \<open>format_command_with_llm\<close> has raised before.
\<close>

definition process_command_logic :: "environment \<Rightarrow> string \<Rightarrow> world \<Rightarrow> (exc + outcome) \<times> world" where
  "process_command_logic e raw_command w =
     (if raw_command = [] then (Inr NoCommand, w)
      else
        case format_command_with_llm e (files w) raw_command of
          Inl x \<Rightarrow> (Inl x, w)
        | Inr JNull \<Rightarrow> (Inr FormatterFailure, w)
        | Inr (JStr formatted_command_str) \<Rightarrow>
            (case parse_llm_output formatted_command_str of
               None \<Rightarrow> (Inr MalformedLLMOutput, w)
             | Some formatted_command \<Rightarrow>
                 (case json_load (files w) SHORTCUTS_FILE of
                    Inl x \<Rightarrow> (Inl x, w)
                  | Inr (JObj d) \<Rightarrow> resolve_category e w (pydict_of d) formatted_command
                  | Inr _ \<Rightarrow> (Inl AttributeError, w)))
        | Inr _ \<Rightarrow> (Inl AttributeError, w))"

subsection \<open>process\_new\_command\<close>

definition process_new_command :: "environment \<Rightarrow> world \<Rightarrow> (exc + outcome) \<times> world" where
  "process_new_command e w =
     (case files w NEW_COMMAND_FILE of
        None \<Rightarrow> (Inl FileNotFoundError, w)
      | Some content \<Rightarrow>
          (let raw_command = py_strip (universal_newlines content)
           in case process_command_logic e raw_command w of
                (Inl x, w') \<Rightarrow> (Inl x, w')
              | (Inr out, w') \<Rightarrow> (Inr out, w'\<lparr>files := (files w')(NEW_COMMAND_FILE \<mapsto> [])\<rparr>)))"

section \<open>The decoder reads back what the encoder writes\<close>

subsection \<open>Strings and numbers\<close>


lemma of_char_lt_256: "(of_char c :: nat) < 256"
  by (cases c) (simp)

lemma hex_val_hex_digit: "d < 16 \<Longrightarrow> hex_val (hex_digit d) = Some d"
  by (auto simp: hex_val_def hex_digit_def Let_def)

lemma hex4_escape:
  "hex4 (CHR ''0'') (CHR ''0'') (hex_digit (of_char c div 16)) (hex_digit (of_char c mod 16)) = Some (of_char c)"
proof -
  have a: "(of_char c :: nat) div 16 < 16" using of_char_lt_256[of c] by (simp add: div_less_iff_less_mult)
  have b: "(of_char c :: nat) mod 16 < 16" by simp
  have z: "hex_val (CHR ''0'') = Some 0" by (simp add: hex_val_def)
  show ?thesis
    by (simp add: hex4_def z hex_val_hex_digit[OF a] hex_val_hex_digit[OF b])
qed

lemma lex_string_escape_char:
  "lex_string (escape_char c @ rest) = cons_result c (lex_string rest)"
proof -
  consider (dq) "c = DQ" | (bs) "c = BSL" | (n) "c = CHR 0x0A" | (r) "c = CHR 0x0D" | (t) "c = CHR 0x09"
    | (b) "c = CHR 0x08" | (f) "c = CHR 0x0C"
    | (pr) "c \<noteq> DQ" "c \<noteq> BSL" "32 \<le> (of_char c :: nat)" "(of_char c :: nat) \<le> 126"
    | (u) "c \<noteq> DQ" "c \<noteq> BSL" "c \<noteq> CHR 0x0A" "c \<noteq> CHR 0x0D" "c \<noteq> CHR 0x09" "c \<noteq> CHR 0x08" "c \<noteq> CHR 0x0C"
          "\<not> (32 \<le> (of_char c :: nat) \<and> (of_char c :: nat) \<le> 126)"
    by blast
  then show ?thesis
  proof cases
    case dq then show ?thesis by (simp add: escape_char_def DQ_def BSL_def unescape_def)
  next
    case bs then show ?thesis by (simp add: escape_char_def DQ_def BSL_def unescape_def)
  next
    case n then show ?thesis by (simp add: escape_char_def DQ_def BSL_def unescape_def)
  next
    case r then show ?thesis by (simp add: escape_char_def DQ_def BSL_def unescape_def)
  next
    case t then show ?thesis by (simp add: escape_char_def DQ_def BSL_def unescape_def)
  next
    case b then show ?thesis by (simp add: escape_char_def DQ_def BSL_def unescape_def)
  next
    case f then show ?thesis by (simp add: escape_char_def DQ_def BSL_def unescape_def)
  next
    case pr
    have e: "escape_char c = [c]"
    proof -
      from pr have "c \<noteq> CHR 0x0A" "c \<noteq> CHR 0x0D" "c \<noteq> CHR 0x09" "c \<noteq> CHR 0x08" "c \<noteq> CHR 0x0C"
        by auto
      with pr show ?thesis by (simp add: escape_char_def)
    qed
    from pr show ?thesis by (simp add: e)
  next
    case u
    have e: "escape_char c = [BSL, CHR ''u'', CHR ''0'', CHR ''0'',
            hex_digit ((of_char c :: nat) div 16), hex_digit ((of_char c :: nat) mod 16)]"
      using u by (simp add: escape_char_def)
    have bq: "BSL \<noteq> DQ" by (simp add: BSL_def DQ_def)
    show ?thesis
      by (simp add: e bq hex4_escape of_char_lt_256)
  qed
qed

lemma lex_string_encoded:
  "lex_string (concat (map escape_char s) @ DQ # rest) = Some (s, rest)"
  by (induction s) (simp_all add: lex_string_escape_char cons_result_def)

lemma show_nat_digits: "\<forall>c\<in>set (show_nat n). is_digit c"
proof (induction n rule: show_nat.induct)
  case (1 n)
  have d: "\<And>k::nat. k < 10 \<Longrightarrow> is_digit (char_of (48 + k))"
    by (simp add: is_digit_def)
  show ?case
  proof (cases "n < 10")
    case True
    then show ?thesis by (subst show_nat.simps) (simp add: d)
  next
    case False
    with 1 show ?thesis by (subst show_nat.simps) (simp add: d)
  qed
qed

lemma digits_value_append:
  "digits_value acc (xs @ ys) = digits_value (digits_value acc xs) ys"
  by (induction xs arbitrary: acc) simp_all

lemma digit_val_char: "k < 10 \<Longrightarrow> digit_val (char_of (48 + k)) = k"
  by (simp add: digit_val_def)

lemma digits_value_show_nat: "digits_value 0 (show_nat n) = n"
proof (induction n rule: show_nat.induct)
  case (1 n)
  show ?case
  proof (cases "n < 10")
    case True
    then show ?thesis by (subst show_nat.simps) (simp add: digit_val_char)
  next
    case False
    with 1 show ?thesis
      by (subst show_nat.simps) (simp add: digits_value_append digit_val_char)
  qed
qed

lemma show_nat_nonempty: "show_nat n \<noteq> []"
  by (subst show_nat.simps) simp

lemma show_nat_hd: "0 < n \<Longrightarrow> hd (show_nat n) \<noteq> CHR ''0''"
proof (induction n rule: show_nat.induct)
  case (1 n)
  show ?case
  proof (cases "n < 10")
    case True
    have "(of_char (char_of (48 + n)) :: nat) = 48 + n"
      using True by simp
    moreover have "(of_char (CHR ''0'') :: nat) = 48" by simp
    ultimately have "char_of (48 + n) \<noteq> CHR ''0''"
      using 1(2) by (metis add_cancel_right_right less_numeral_extra(3))
    with True show ?thesis by (subst show_nat.simps) simp
  next
    case False
    then have "0 < n div 10" by simp
    with 1(1) False have "hd (show_nat (n div 10)) \<noteq> CHR ''0''" by simp
    with False show ?thesis
      by (subst show_nat.simps) (simp add: show_nat_nonempty)
  qed
qed

definition no_digit_first :: "string \<Rightarrow> bool" where
  "no_digit_first rest = (case rest of [] \<Rightarrow> True | c # cs \<Rightarrow> \<not> is_digit c)"

lemma takeWhile_digits:
  "\<forall>c\<in>set xs. is_digit c \<Longrightarrow> no_digit_first rest \<Longrightarrow>
   takeWhile is_digit (xs @ rest) = xs \<and> dropWhile is_digit (xs @ rest) = rest"
  by (induction xs) (auto simp: no_digit_first_def split: list.splits)

lemma lex_nat_show_nat:
  assumes "no_digit_first rest"
  shows "lex_nat (show_nat n @ rest) = Some (n, rest)"
proof (cases "n = 0")
  case True
  have "char_of (48::nat) = CHR ''0''" by code_simp
  then have "show_nat 0 = ''0''" by (subst show_nat.simps) simp
  with True show ?thesis by (simp add: lex_nat_def)
next
  case False
  obtain c cs where s: "show_nat n = c # cs"
    using show_nat_nonempty[of n] by (cases "show_nat n") auto
  from False have "c \<noteq> CHR ''0''" using show_nat_hd[of n] s by simp
  moreover have dig: "\<forall>c\<in>set (c # cs). is_digit c" using show_nat_digits[of n] s by simp
  moreover have "takeWhile is_digit (cs @ rest) = cs \<and> dropWhile is_digit (cs @ rest) = rest"
    using takeWhile_digits[of cs rest] dig assms by simp
  moreover have "digits_value 0 (c # cs) = n" using digits_value_show_nat[of n] s by simp
  ultimately show ?thesis
    by (simp add: lex_nat_def s)
qed

lemma show_nat_not_minus: "hd (show_nat n) \<noteq> CHR ''-''"
  using show_nat_digits[of n] show_nat_nonempty[of n]
  by (cases "show_nat n") (auto simp: is_digit_def)

lemma lex_number_show_int:
  assumes "no_digit_first rest"
  shows "lex_number (show_int i @ rest) = Some (i, rest)"
proof (cases "i < 0")
  case True
  then show ?thesis
    by (simp add: lex_number_def show_int_def lex_nat_show_nat[OF assms])
next
  case False
  obtain c cs where s: "show_nat (nat i) = c # cs"
    using show_nat_nonempty[of "nat i"] by (cases "show_nat (nat i)") auto
  have "c \<noteq> CHR ''-''" using show_nat_not_minus[of "nat i"] s by simp
  moreover have "lex_nat ((c # cs) @ rest) = Some (nat i, rest)"
    using lex_nat_show_nat[OF assms, of "nat i"] s by simp
  ultimately show ?thesis using False
    by (simp add: lex_number_def show_int_def s)
qed

subsection \<open>Tokens\<close>

text \<open>The tokens of a value, and the values a \<open>dict\<close> can hold: no key twice.\<close>

fun toks :: "json \<Rightarrow> token list" where
  "toks JNull = [TNull]"
| "toks (JBool b) = [if b then TTrue else TFalse]"
| "toks (JInt i) = [TInt i]"
| "toks (JStr s) = [TStr s]"
| "toks (JArr xs) = TLBrack # join_with [TComma] (map toks xs) @ [TRBrack]"
| "toks (JObj kvs) =
     TLBrace # join_with [TComma] (map (\<lambda>kv. TStr (fst kv) # TColon # toks (snd kv)) kvs)
       @ [TRBrace]"

fun distinct_keys :: "json \<Rightarrow> bool" where
  "distinct_keys (JArr xs) = list_all distinct_keys xs"
| "distinct_keys (JObj kvs) =
     (distinct (map fst kvs) \<and> list_all (\<lambda>kv. distinct_keys (snd kv)) kvs)"
| "distinct_keys _ = True"

lemma tokenize_newline_indent: "tokenize (newline_indent l @ rest) = tokenize rest"
proof -
  have "tokenize (replicate k (CHR '' '') @ rest) = tokenize rest" for k
    by (induction k) (simp_all add: is_json_ws_def)
  then show ?thesis by (simp add: newline_indent_def LF_def is_json_ws_def)
qed

lemma tokenize_number:
  assumes "c = CHR ''-'' \<or> is_digit c"
  shows "tokenize (c # cs) =
     (case lex_number (c # cs) of
        None \<Rightarrow> None
      | Some nr \<Rightarrow> map_option (Cons (TInt (fst nr))) (tokenize (snd nr)))"
proof -
  from assms have "\<not> is_json_ws c" "c \<noteq> CHR ''{''" "c \<noteq> CHR ''}''" "c \<noteq> CHR ''[''"
    "c \<noteq> CHR '']''" "c \<noteq> CHR '',''" "c \<noteq> CHR '':''" "c \<noteq> DQ"
    by (auto simp: is_digit_def is_json_ws_def DQ_def)
  with assms show ?thesis by simp
qed

lemma show_int_first: "\<exists>c cs. show_int i = c # cs \<and> (c = CHR ''-'' \<or> is_digit c)"
proof (cases "i < 0")
  case True
  then show ?thesis by (simp add: show_int_def)
next
  case False
  obtain c cs where s: "show_nat (nat i) = c # cs"
    using show_nat_nonempty[of "nat i"] by (cases "show_nat (nat i)") auto
  with show_nat_digits[of "nat i"] have "is_digit c" by simp
  with s False show ?thesis by (simp add: show_int_def)
qed

lemma tokenize_show_int:
  assumes "no_digit_first rest" "tokenize rest = Some ts"
  shows "tokenize (show_int i @ rest) = Some (TInt i # ts)"
proof -
  obtain c cs where s: "show_int i = c # cs" and c: "c = CHR ''-'' \<or> is_digit c"
    using show_int_first by blast
  have "lex_number ((c # cs) @ rest) = Some (i, rest)"
    using lex_number_show_int[OF assms(1), of i] s by simp
  then show ?thesis
    using tokenize_number[OF c, of "cs @ rest"] assms(2) s by simp
qed

lemma tokenize_encode_string:
  assumes "tokenize rest = Some ts"
  shows "tokenize (encode_string s @ rest) = Some (TStr s # ts)"
proof -
  have "\<not> is_json_ws DQ" "DQ \<noteq> CHR ''{''" "DQ \<noteq> CHR ''}''" "DQ \<noteq> CHR ''[''"
    "DQ \<noteq> CHR '']''" "DQ \<noteq> CHR '',''" "DQ \<noteq> CHR '':''"
    by (auto simp: is_json_ws_def DQ_def)
  then show ?thesis
    using assms by (simp add: encode_string_def lex_string_encoded)
qed

lemma no_digit_first_simps:
  "no_digit_first []"
  "no_digit_first (newline_indent l @ r)"
  "no_digit_first (CHR '','' # r)"
  "no_digit_first (CHR '']'' # r)"
  "no_digit_first (CHR ''}'' # r)"
  by (simp_all add: no_digit_first_def newline_indent_def LF_def is_digit_def)

lemma tokenize_joined:
  assumes each: "\<And>x r ts. x \<in> set xs \<Longrightarrow> no_digit_first r \<Longrightarrow> tokenize r = Some ts
                   \<Longrightarrow> tokenize (f x @ r) = Some (g x @ ts)"
    and "no_digit_first rest" "tokenize rest = Some ts"
  shows "tokenize (join_with ('','' @ newline_indent l) (map f xs) @ rest)
         = Some (join_with [TComma] (map g xs) @ ts)"
  using each
proof (induction xs rule: induct_list012)
  case 1
  then show ?case using assms(3) by simp
next
  case (2 x)
  then show ?case using assms(2,3) by simp
next
  case (3 x y zs)
  have "tokenize (join_with ('','' @ newline_indent l) (map f (y # zs)) @ rest)
         = Some (join_with [TComma] (map g (y # zs)) @ ts)"
    using 3 by simp
  then have "tokenize (CHR '','' # newline_indent l @ join_with ('','' @ newline_indent l) (map f (y # zs)) @ rest)
         = Some (TComma # join_with [TComma] (map g (y # zs)) @ ts)"
    by (simp add: is_json_ws_def tokenize_newline_indent)
  then have "tokenize (f x @ CHR '','' # newline_indent l @ join_with ('','' @ newline_indent l) (map f (y # zs)) @ rest)
         = Some (g x @ TComma # join_with [TComma] (map g (y # zs)) @ ts)"
    using "3.prems"[of x] by (simp add: no_digit_first_simps)
  then show ?case by simp
qed

lemma tokenize_dumps_at:
  "no_digit_first rest \<Longrightarrow> tokenize rest = Some ts
   \<Longrightarrow> tokenize (dumps_at l v @ rest) = Some (toks v @ ts)"
proof (induction v arbitrary: l rest ts)
  case JNull
  then show ?case by (simp add: is_json_ws_def DQ_def is_digit_def)
next
  case (JBool b)
  then show ?case by (simp add: is_json_ws_def DQ_def is_digit_def)
next
  case (JInt i)
  then show ?case by (simp add: tokenize_show_int)
next
  case (JStr s)
  then show ?case by (simp add: tokenize_encode_string)
next
  case (JArr xs)
  show ?case
  proof (cases "xs = []")
    case True
    with JArr.prems show ?thesis by (simp add: is_json_ws_def)
  next
    case False
    have close: "tokenize (newline_indent l @ CHR '']'' # rest) = Some (TRBrack # ts)"
      using JArr.prems by (simp add: tokenize_newline_indent is_json_ws_def)
    have "tokenize (join_with ('','' @ newline_indent (Suc l)) (map (dumps_at (Suc l)) xs)
                    @ newline_indent l @ CHR '']'' # rest)
          = Some (join_with [TComma] (map toks xs) @ TRBrack # ts)"
      by (rule tokenize_joined[OF _ _ close]) (simp_all add: JArr.IH no_digit_first_simps)
    then show ?thesis using False
      by (simp add: tokenize_newline_indent is_json_ws_def)
  qed
next
  case (JObj kvs)
  show ?case
  proof (cases "kvs = []")
    case True
    with JObj.prems show ?thesis by (simp add: is_json_ws_def)
  next
    case False
    have close: "tokenize (newline_indent l @ CHR ''}'' # rest) = Some (TRBrace # ts)"
      using JObj.prems by (simp add: tokenize_newline_indent is_json_ws_def)
    have member: "tokenize ((encode_string (fst kv) @ '': '' @ dumps_at (Suc l) (snd kv)) @ r)
          = Some ((TStr (fst kv) # TColon # toks (snd kv)) @ ts')"
      if "kv \<in> set kvs" "no_digit_first r" "tokenize r = Some ts'" for kv r ts'
    proof -
      have "snd kv \<in> Basic_BNFs.snds kv" by (cases kv) simp
      then have "tokenize (dumps_at (Suc l) (snd kv) @ r) = Some (toks (snd kv) @ ts')"
        using JObj.IH that by blast
      then have "tokenize ('': '' @ dumps_at (Suc l) (snd kv) @ r) = Some (TColon # toks (snd kv) @ ts')"
        by (simp add: is_json_ws_def)
      then show ?thesis
        using tokenize_encode_string[of "'': '' @ dumps_at (Suc l) (snd kv) @ r"] by simp
    qed
    have "tokenize (join_with ('','' @ newline_indent (Suc l))
                      (map (\<lambda>kv. encode_string (fst kv) @ '': '' @ dumps_at (Suc l) (snd kv)) kvs)
                    @ newline_indent l @ CHR ''}'' # rest)
          = Some (join_with [TComma] (map (\<lambda>kv. TStr (fst kv) # TColon # toks (snd kv)) kvs)
                  @ TRBrace # ts)"
      by (rule tokenize_joined[OF _ _ close]) (use member in \<open>simp_all add: no_digit_first_simps\<close>)
    then show ?thesis using False
      by (simp add: tokenize_newline_indent is_json_ws_def)
  qed
qed

subsection \<open>The grammar\<close>

lemma dict_set_fresh: "k \<notin> fst ` set d \<Longrightarrow> dict_set d k v = d @ [(k, v)]"
  by (induction d) auto

lemma dict_of_pairs_distinct_from:
  "distinct (map fst (acc @ kvs))
   \<Longrightarrow> foldl (\<lambda>d kv. dict_set d (fst kv) (snd kv)) acc kvs = acc @ kvs"
proof (induction kvs arbitrary: acc)
  case Nil
  then show ?case by simp
next
  case (Cons kv kvs)
  then have "fst kv \<notin> fst ` set acc" by auto
  then have "dict_set acc (fst kv) (snd kv) = acc @ [kv]"
    by (simp add: dict_set_fresh)
  with Cons.IH[of "acc @ [kv]"] Cons.prems show ?case by simp
qed

lemma dict_of_pairs_distinct: "distinct (map fst kvs) \<Longrightarrow> dict_of_pairs kvs = kvs"
  using dict_of_pairs_distinct_from[of "[]" kvs] by (simp add: dict_of_pairs_def)

lemma toks_first:
  "\<exists>t ts. toks v = t # ts \<and> t \<noteq> TRBrack \<and> t \<noteq> TRBrace \<and> t \<noteq> TComma \<and> t \<noteq> TColon"
  by (cases v) auto

lemma parse_elements_joined:
  assumes each: "\<And>x n r. x \<in> set xs \<Longrightarrow> length (toks x) \<le> n
                   \<Longrightarrow> parse_value n (toks x @ r) = Some (x, r)"
    and "xs \<noteq> []"
    and "length (join_with [TComma] (map toks xs)) < n"
  shows "parse_elements n (join_with [TComma] (map toks xs) @ TRBrack # rest) = Some (xs, rest)"
  using assms
proof (induction xs arbitrary: n rule: induct_list012)
  case 1
  then show ?case by simp
next
  case (2 x)
  then obtain m where n: "n = Suc m" by (cases n) auto
  with 2 have "parse_value m (toks x @ TRBrack # rest) = Some (x, TRBrack # rest)"
    by simp
  with n show ?case by simp
next
  case (3 x y zs)
  then obtain m where n: "n = Suc m" by (cases n) auto
  have len: "length (toks x) \<le> m" "length (join_with [TComma] (map toks (y # zs))) < m"
    using "3.prems"(3) n by simp_all
  have "parse_value m (toks x @ TComma # join_with [TComma] (map toks (y # zs)) @ TRBrack # rest)
        = Some (x, TComma # join_with [TComma] (map toks (y # zs)) @ TRBrack # rest)"
    using "3.prems"(1)[of x m] len by simp
  moreover have "parse_elements m (join_with [TComma] (map toks (y # zs)) @ TRBrack # rest)
        = Some (y # zs, rest)"
    using "3.IH"(2)[of m] "3.prems"(1) len by simp
  ultimately show ?case using n by (simp add: cons_result_def)
qed

lemma parse_members_joined:
  assumes each: "\<And>kv n r. kv \<in> set kvs \<Longrightarrow> length (toks (snd kv)) \<le> n
                   \<Longrightarrow> parse_value n (toks (snd kv) @ r) = Some (snd kv, r)"
    and "kvs \<noteq> []"
    and "length (join_with [TComma] (map (\<lambda>kv. TStr (fst kv) # TColon # toks (snd kv)) kvs)) < n"
  shows "parse_members n (join_with [TComma] (map (\<lambda>kv. TStr (fst kv) # TColon # toks (snd kv)) kvs)
                           @ TRBrace # rest) = Some (kvs, rest)"
  using assms
proof (induction kvs arbitrary: n rule: induct_list012)
  case 1
  then show ?case by simp
next
  case (2 kv)
  then obtain m where n: "n = Suc m" by (cases n) auto
  with 2 have "parse_value m (toks (snd kv) @ TRBrace # rest) = Some (snd kv, TRBrace # rest)"
    by simp
  with n show ?case by simp
next
  case (3 kv y zs)
  let ?J = "join_with [TComma] (map (\<lambda>kv. TStr (fst kv) # TColon # toks (snd kv)) (y # zs))"
  from 3 obtain m where n: "n = Suc m" by (cases n) auto
  have len: "length (toks (snd kv)) \<le> m" "length ?J < m"
    using "3.prems"(3) n by simp_all
  have "parse_value m (toks (snd kv) @ TComma # ?J @ TRBrace # rest)
        = Some (snd kv, TComma # ?J @ TRBrace # rest)"
    using "3.prems"(1)[of kv m] len by simp
  moreover have "parse_members m (?J @ TRBrace # rest) = Some (y # zs, rest)"
    using "3.IH"(2)[of m] "3.prems"(1) len by simp
  ultimately show ?case using n by (simp add: cons_result_def)
qed

lemma parse_value_toks:
  "distinct_keys v \<Longrightarrow> length (toks v) \<le> n \<Longrightarrow> parse_value n (toks v @ rest) = Some (v, rest)"
proof (induction v arbitrary: n rest)
  case JNull
  then show ?case by (cases n) simp_all
next
  case (JBool b)
  then show ?case by (cases n) simp_all
next
  case (JInt i)
  then show ?case by (cases n) simp_all
next
  case (JStr s)
  then show ?case by (cases n) simp_all
next
  case (JArr xs)
  from JArr.prems obtain m where n: "n = Suc m" by (cases n) auto
  show ?case
  proof (cases "xs = []")
    case True
    with n show ?thesis by simp
  next
    case False
    let ?J = "join_with [TComma] (map toks xs)"
    obtain x ys where xs: "xs = x # ys" using False by (cases xs) auto
    obtain t ts where t: "toks x = t # ts" "t \<noteq> TRBrack" using toks_first[of x] by blast
    have J: "\<exists>js. ?J = t # js" using xs t by (cases ys) simp_all
    have "parse_elements m (?J @ TRBrack # rest) = Some (xs, rest)"
    proof (rule parse_elements_joined[OF _ False])
      show "length ?J < m" using JArr.prems(2) n by simp
    next
      fix x n r
      assume "x \<in> set xs" "length (toks x) \<le> n"
      with JArr.IH[of x n r] JArr.prems(1)
      show "parse_value n (toks x @ r) = Some (x, r)"
        by (simp add: list_all_iff)
    qed
    with J t n show ?thesis by (auto split: list.splits token.splits)
  qed
next
  case (JObj kvs)
  from JObj.prems obtain m where n: "n = Suc m" by (cases n) auto
  show ?case
  proof (cases "kvs = []")
    case True
    with n show ?thesis by simp
  next
    case False
    let ?J = "join_with [TComma] (map (\<lambda>kv. TStr (fst kv) # TColon # toks (snd kv)) kvs)"
    obtain kv ys where kvs: "kvs = kv # ys" using False by (cases kvs) auto
    have J: "\<exists>js. ?J = TStr (fst kv) # js" using kvs by (cases ys) simp_all
    have "parse_members m (?J @ TRBrace # rest) = Some (kvs, rest)"
    proof (rule parse_members_joined[OF _ False])
      show "length ?J < m" using JObj.prems(2) n by simp
    next
      fix kv n r
      assume kv: "kv \<in> set kvs" "length (toks (snd kv)) \<le> n"
      have "snd kv \<in> Basic_BNFs.snds kv" by (cases kv) simp
      with JObj.IH[of kv "snd kv" n r] JObj.prems(1) kv
      show "parse_value n (toks (snd kv) @ r) = Some (snd kv, r)"
        by (simp add: list_all_iff)
    qed
    moreover have "dict_of_pairs kvs = kvs"
      using JObj.prems(1) by (simp add: dict_of_pairs_distinct)
    ultimately show ?thesis using J n by (auto split: list.splits token.splits)
  qed
qed

lemma json_loads_dumps: "distinct_keys v \<Longrightarrow> json_loads (json_dumps v) = Some v"
proof -
  assume wf: "distinct_keys v"
  have "tokenize (dumps_at 0 v @ []) = Some (toks v @ [])"
    by (rule tokenize_dumps_at) (simp_all add: no_digit_first_def)
  moreover have "parse_value (Suc (length (toks v))) (toks v @ []) = Some (v, [])"
    by (rule parse_value_toks[OF wf]) simp
  ultimately show ?thesis by (simp add: json_loads_def json_dumps_def)
qed

subsection \<open>What the decoder returns has no key twice\<close>

lemma dict_set_keys: "fst ` set (dict_set d k v) = insert k (fst ` set d)"
  by (induction d) auto

lemma dict_set_distinct: "distinct (map fst d) \<Longrightarrow> distinct (map fst (dict_set d k v))"
  by (induction d) (auto simp: dict_set_keys)

lemma dict_set_values: "x \<in> set (dict_set d k v) \<Longrightarrow> x = (k, v) \<or> x \<in> set d"
  by (induction d) (auto split: if_splits)

lemma dict_of_pairs_distinct_acc:
  "distinct (map fst acc) \<Longrightarrow>
   distinct (map fst (foldl (\<lambda>d kv. dict_set d (fst kv) (snd kv)) acc kvs))"
  by (induction kvs arbitrary: acc) (simp_all add: dict_set_distinct)

lemma dict_of_pairs_values_acc:
  "x \<in> set (foldl (\<lambda>d kv. dict_set d (fst kv) (snd kv)) acc kvs) \<Longrightarrow> x \<in> set acc \<or> x \<in> set kvs"
proof (induction kvs arbitrary: acc)
  case Nil
  then show ?case by simp
next
  case (Cons kv kvs)
  from Cons.IH[of "dict_set acc (fst kv) (snd kv)"] Cons.prems
  have "x \<in> set (dict_set acc (fst kv) (snd kv)) \<or> x \<in> set kvs" by simp
  then show ?case using dict_set_values[of x acc "fst kv" "snd kv"] by auto
qed

lemma dict_of_pairs_keys: "distinct (map fst (dict_of_pairs kvs))"
  using dict_of_pairs_distinct_acc[of "[]" kvs] by (simp add: dict_of_pairs_def)

lemma dict_of_pairs_values: "x \<in> set (dict_of_pairs kvs) \<Longrightarrow> x \<in> set kvs"
  using dict_of_pairs_values_acc[of x "[]" kvs] by (simp add: dict_of_pairs_def)

lemma cons_result_Some:
  "cons_result x r = Some (ys, rest) \<Longrightarrow> \<exists>xs. r = Some (xs, rest) \<and> ys = x # xs"
  by (auto simp: cons_result_def split: option.splits)

abbreviation parses_distinct :: "nat \<Rightarrow> bool" where
  "parses_distinct n \<equiv>
     ((\<forall>ts v r. parse_value n ts = Some (v, r) \<longrightarrow> distinct_keys v) \<and>
      (\<forall>ts vs r. parse_elements n ts = Some (vs, r) \<longrightarrow> list_all distinct_keys vs) \<and>
      (\<forall>ts kvs r. parse_members n ts = Some (kvs, r) \<longrightarrow> list_all (\<lambda>kv. distinct_keys (snd kv)) kvs))"

lemma parses_distinct_all: "parses_distinct n"
proof (induction n)
  case 0
  then show ?case by simp
next
  case (Suc n)
  then have IHv: "\<And>ts v r. parse_value n ts = Some (v, r) \<Longrightarrow> distinct_keys v"
    and IHe: "\<And>ts vs r. parse_elements n ts = Some (vs, r) \<Longrightarrow> list_all distinct_keys vs"
    and IHm: "\<And>ts kvs r. parse_members n ts = Some (kvs, r) \<Longrightarrow> list_all (\<lambda>kv. distinct_keys (snd kv)) kvs"
    by blast+
  have v: "distinct_keys v" if p: "parse_value (Suc n) ts = Some (v, r)" for ts v r
  proof (cases ts)
    case Nil
    with p show ?thesis by simp
  next
    case (Cons t ts')
    show ?thesis
    proof (cases t)
      case TLBrack
      show ?thesis
      proof (cases "\<exists>r'. ts' = TRBrack # r'")
        case True
        with p Cons TLBrack show ?thesis by auto
      next
        case False
        then have "(case ts' of TRBrack # r \<Rightarrow> Some (JArr [], r)
                    | _ \<Rightarrow> (case parse_elements n ts' of None \<Rightarrow> None | Some (vs, r) \<Rightarrow> Some (JArr vs, r)))
                   = (case parse_elements n ts' of None \<Rightarrow> None | Some (vs, r) \<Rightarrow> Some (JArr vs, r))"
          by (auto split: list.splits token.splits)
        with p Cons TLBrack obtain vs where "parse_elements n ts' = Some (vs, r)" "v = JArr vs"
          by (auto split: option.splits)
        with IHe show ?thesis by simp
      qed
    next
      case TLBrace
      show ?thesis
      proof (cases "\<exists>r'. ts' = TRBrace # r'")
        case True
        with p Cons TLBrace show ?thesis by auto
      next
        case False
        then have "(case ts' of TRBrace # r \<Rightarrow> Some (JObj [], r)
                    | _ \<Rightarrow> (case parse_members n ts' of None \<Rightarrow> None
                             | Some (kvs, r) \<Rightarrow> Some (JObj (dict_of_pairs kvs), r)))
                   = (case parse_members n ts' of None \<Rightarrow> None
                      | Some (kvs, r) \<Rightarrow> Some (JObj (dict_of_pairs kvs), r))"
          by (auto split: list.splits token.splits)
        with p Cons TLBrace obtain kvs where k: "parse_members n ts' = Some (kvs, r)"
          "v = JObj (dict_of_pairs kvs)"
          by (auto split: option.splits)
        then have "list_all (\<lambda>kv. distinct_keys (snd kv)) kvs" using IHm by simp
        then have "list_all (\<lambda>kv. distinct_keys (snd kv)) (dict_of_pairs kvs)"
          using dict_of_pairs_values[of _ kvs] by (auto simp: list_all_iff)
        with k show ?thesis by (simp add: dict_of_pairs_keys)
      qed
    qed (use p Cons in auto)
  qed
  have e: "list_all distinct_keys vs" if p: "parse_elements (Suc n) ts = Some (vs, r)" for ts vs r
  proof -
    from p obtain v r0 where v: "parse_value n ts = Some (v, r0)"
      by (auto split: option.splits)
    then have dv: "distinct_keys v" using IHv by simp
    from p v consider (more) r' vs' where "parse_elements n r' = Some (vs', r)" "vs = v # vs'"
      | (last) "vs = [v]"
      by (auto split: list.splits token.splits dest: cons_result_Some)
    then show ?thesis
    proof cases
      case more
      with IHe dv show ?thesis by simp
    next
      case last
      with dv show ?thesis by simp
    qed
  qed
  have m: "list_all (\<lambda>kv. distinct_keys (snd kv)) kvs"
    if p: "parse_members (Suc n) ts = Some (kvs, r)" for ts kvs r
  proof -
    from p obtain k rr where ts: "ts = TStr k # TColon # rr"
      by (auto split: list.splits token.splits)
    with p obtain v r0 where v: "parse_value n rr = Some (v, r0)"
      by (auto split: option.splits)
    then have dv: "distinct_keys v" using IHv by simp
    from p ts v consider (more) r' kvs' where "parse_members n r' = Some (kvs', r)" "kvs = (k, v) # kvs'"
      | (last) "kvs = [(k, v)]"
      by (auto split: list.splits token.splits dest: cons_result_Some)
    then show ?thesis
    proof cases
      case more
      with IHm[of r' kvs' r] dv show ?thesis by simp
    next
      case last
      with dv show ?thesis by simp
    qed
  qed
  from v e m show ?case by blast
qed

lemma json_loads_distinct_keys: "json_loads s = Some v \<Longrightarrow> distinct_keys v"
proof -
  assume "json_loads s = Some v"
  then obtain ts where "parse_value (Suc (length ts)) ts = Some (v, [])"
    by (auto simp: json_loads_def split: option.splits list.splits)
  with parses_distinct_all[of "Suc (length ts)"] show ?thesis
    by blast
qed

subsection \<open>The text the encoder writes\<close>

text \<open>Every character \<open>json.dumps\<close> writes is a line feed or printable ASCII.\<close>

definition plain_char :: "char \<Rightarrow> bool" where
  "plain_char c = (c = LF \<or> (32 \<le> (of_char c :: nat) \<and> (of_char c :: nat) \<le> 126))"

lemma plain_literals:
  "plain_char DQ" "plain_char BSL" "plain_char LF" "plain_char (CHR '' '')"
  "plain_char (CHR ''n'')" "plain_char (CHR ''r'')" "plain_char (CHR ''t'')"
  "plain_char (CHR ''b'')" "plain_char (CHR ''f'')" "plain_char (CHR ''u'')"
  "plain_char (CHR ''0'')" "plain_char (CHR '','')" "plain_char (CHR '':'')"
  "plain_char (CHR ''['')" "plain_char (CHR '']'')" "plain_char (CHR ''{'')"
  "plain_char (CHR ''}'')" "plain_char (CHR ''-'')" "plain_char (CHR ''l'')"
  "plain_char (CHR ''e'')" "plain_char (CHR ''a'')" "plain_char (CHR ''s'')"
  by (simp_all add: plain_char_def DQ_def BSL_def)

lemma plain_hex_digit: "d < 16 \<Longrightarrow> plain_char (hex_digit d)"
  by (auto simp: plain_char_def hex_digit_def)

lemma plain_escape_char: "list_all plain_char (escape_char c)"
proof -
  have "(of_char c :: nat) div 16 < 16"
    using of_char_lt_256[of c] by (simp add: div_less_iff_less_mult)
  then show ?thesis
    by (auto simp: escape_char_def plain_literals plain_char_def[of c] plain_hex_digit)
qed

lemma plain_encode_string: "list_all plain_char (encode_string s)"
  using plain_escape_char
  by (induction s) (auto simp: encode_string_def plain_literals)

lemma plain_show_int: "list_all plain_char (show_int i)"
proof -
  have "list_all plain_char (show_nat n)" for n
    using show_nat_digits[of n] by (auto simp: list_all_iff is_digit_def plain_char_def)
  then show ?thesis by (simp add: show_int_def plain_literals)
qed

lemma plain_newline_indent: "list_all plain_char (newline_indent l)"
  by (simp add: newline_indent_def plain_literals list_all_iff)

lemma plain_join_with:
  "list_all plain_char sep \<Longrightarrow> list_all (list_all plain_char) xs
   \<Longrightarrow> list_all plain_char (join_with sep xs)"
  by (induction sep xs rule: join_with.induct) simp_all

lemma plain_dumps_at: "list_all plain_char (dumps_at l v)"
proof (induction v arbitrary: l)
  case (JArr xs)
  have "list_all (list_all plain_char) (map (dumps_at (Suc l)) xs)"
    using JArr.IH by (simp add: list_all_iff)
  then have "list_all plain_char
      (join_with ('','' @ newline_indent (Suc l)) (map (dumps_at (Suc l)) xs))"
    by (intro plain_join_with) (simp_all add: plain_newline_indent plain_literals)
  then show ?case
    by (simp add: plain_newline_indent plain_literals)
next
  case (JObj kvs)
  have "list_all plain_char (dumps_at (Suc l) (snd kv))" if "kv \<in> set kvs" for kv
  proof -
    have "snd kv \<in> Basic_BNFs.snds kv" by (cases kv) simp
    with JObj.IH that show ?thesis by blast
  qed
  then have "list_all (list_all plain_char)
      (map (\<lambda>kv. encode_string (fst kv) @ '': '' @ dumps_at (Suc l) (snd kv)) kvs)"
    using plain_encode_string by (auto simp: list_all_iff plain_literals)
  then have "list_all plain_char
      (join_with ('','' @ newline_indent (Suc l))
         (map (\<lambda>kv. encode_string (fst kv) @ '': '' @ dumps_at (Suc l) (snd kv)) kvs))"
    by (intro plain_join_with) (simp_all add: plain_newline_indent plain_literals)
  then show ?case
    by (simp add: plain_newline_indent plain_literals)
qed (simp_all add: plain_literals plain_encode_string plain_show_int)

lemma universal_newlines_plain: "list_all plain_char s \<Longrightarrow> universal_newlines s = s"
  by (induction s rule: universal_newlines.induct)
     (auto simp: plain_char_def CR_def LF_def)

lemma universal_newlines_dumps [simp]: "universal_newlines (json_dumps v) = json_dumps v"
  by (simp add: json_dumps_def universal_newlines_plain plain_dumps_at)

lemma lines_plain:
  "list_all plain_char s \<Longrightarrow> length (splitlines_from cur s) = length (lines_keepends cur s)"
proof (induction cur s rule: splitlines_from.induct)
  case (1 cur)
  then show ?case by simp
next
  case (2 cur c)
  then have "is_linebreak c \<longleftrightarrow> c = LF"
    by (auto simp: plain_char_def is_linebreak_def LF_def)
  then show ?case by simp
next
  case (3 cur c d cs)
  then have c: "is_linebreak c \<longleftrightarrow> c = LF" "c \<noteq> CR"
    by (auto simp: plain_char_def is_linebreak_def LF_def CR_def)
  with 3 show ?case by simp
qed

text \<open>
  On such a text the two ways of counting lines that the safe writer uses agree.
\<close>

lemma line_counts_agree:
  "list_all plain_char s \<Longrightarrow> length (splitlines s) = length (readlines s)"
  by (simp add: splitlines_def readlines_def universal_newlines_plain lines_plain)

section \<open>What a cycle does to the files and the prompts\<close>

text \<open>The exits of the workflow that come before the commit step.\<close>

fun pre_commit_abort :: "outcome \<Rightarrow> bool" where
  "pre_commit_abort NoCommand = True"
| "pre_commit_abort FormatterFailure = True"
| "pre_commit_abort MalformedLLMOutput = True"
| "pre_commit_abort MissingCategory = True"
| "pre_commit_abort UserRejectedCategory = True"
| "pre_commit_abort DuplicateCommand = True"
| "pre_commit_abort UserRejectedCandidate = True"
| "pre_commit_abort _ = False"

lemma sync_local_to_cloud_keeps:
  "files (sync_local_to_cloud b w) = files w" "asked (sync_local_to_cloud b w) = asked w"
  by (simp_all add: sync_local_to_cloud_def split: sum.splits)

text \<open>The commit step, case by case.\<close>

definition updated_text :: "pydict \<Rightarrow> (string \<times> json) list \<Rightarrow> json \<Rightarrow> json list \<Rightarrow> string" where
  "updated_text sh c cat entries =
     dumps_pydict (dict_set sh cat
       (JArr (entries @ [JObj (filter (\<lambda>kv. fst kv \<noteq> ''category'') c)])))"

lemma commit_no_list:
  "map_of sh cat = None \<Longrightarrow> commit e w sh c cat = (Inl KeyError, w)"
  "map_of sh cat = Some v \<Longrightarrow> \<not> (\<exists>xs. v = JArr xs) \<Longrightarrow> commit e w sh c cat = (Inl AttributeError, w)"
proof -
  show "map_of sh cat = None \<Longrightarrow> commit e w sh c cat = (Inl KeyError, w)"
    by (simp add: commit_def Let_def)
  show "map_of sh cat = Some v \<Longrightarrow> \<not> (\<exists>xs. v = JArr xs) \<Longrightarrow> commit e w sh c cat = (Inl AttributeError, w)"
    by (cases v) (simp_all add: commit_def Let_def)
qed

lemma commit_list:
  assumes "map_of sh cat = Some (JArr entries)"
  shows "commit e w sh c cat =
     (if length (splitlines (updated_text sh c cat entries)) < get_line_count (files w) SHORTCUTS_FILE
      then (Inr WriteGuardViolation, w)
      else if \<not> fst (validate_json ((files w)(SHORTCUTS_FILE \<mapsto> updated_text sh c cat entries)) SHORTCUTS_FILE)
      then (Inr PostWriteCorruption, w\<lparr>files := (files w)(SHORTCUTS_FILE \<mapsto> updated_text sh c cat entries)\<rparr>)
      else (Inr (Committed
                  (int (get_line_count ((files w)(SHORTCUTS_FILE \<mapsto> updated_text sh c cat entries)) SHORTCUTS_FILE)
                   - int (get_line_count (files w) SHORTCUTS_FILE))),
            sync_local_to_cloud (put_succeeds e)
              (w\<lparr>files := (files w)(SHORTCUTS_FILE \<mapsto> updated_text sh c cat entries)\<rparr>)))"
  using assms
  by (simp add: commit_def Let_def update_shortcuts_safely_def updated_text_def)

lemma commit_effect:
  assumes "commit e w sh c cat = (r, w')"
  shows "asked w' = asked w"
    and "(files w' = files w \<and> r \<noteq> Inr PostWriteCorruption \<and> (\<forall>n. r \<noteq> Inr (Committed n))) \<or>
         ((r = Inr PostWriteCorruption \<or> (\<exists>n. r = Inr (Committed n))) \<and>
          (\<exists>content. files w' = (files w)(SHORTCUTS_FILE \<mapsto> content)))"
    and "r = Inr out \<Longrightarrow> \<not> pre_commit_abort out"
proof -
  consider (none) "map_of sh cat = None"
    | (other) v where "map_of sh cat = Some v" "\<not> (\<exists>xs. v = JArr xs)"
    | (list) entries where "map_of sh cat = Some (JArr entries)"
  proof (cases "map_of sh cat")
    case None
    then show ?thesis using none by simp
  next
    case (Some v)
    then show ?thesis using other list by (cases v) auto
  qed
  then have "asked w' = asked w \<and>
    ((files w' = files w \<and> r \<noteq> Inr PostWriteCorruption \<and> (\<forall>n. r \<noteq> Inr (Committed n))) \<or>
         ((r = Inr PostWriteCorruption \<or> (\<exists>n. r = Inr (Committed n))) \<and>
          (\<exists>content. files w' = (files w)(SHORTCUTS_FILE \<mapsto> content)))) \<and>
    (r = Inr out \<longrightarrow> \<not> pre_commit_abort out)"
  proof cases
    case none
    from assms commit_no_list(1)[OF none, of e w c] have "r = Inl KeyError" "w' = w" by simp_all
    then show ?thesis by simp
  next
    case other
    from assms commit_no_list(2)[OF other, of e w c] have "r = Inl AttributeError" "w' = w" by simp_all
    then show ?thesis by simp
  next
    case list
    from assms show ?thesis
      unfolding commit_list[OF list]
      by (auto simp: sync_local_to_cloud_keeps split: if_splits)
  qed
  then show "asked w' = asked w"
    and "(files w' = files w \<and> r \<noteq> Inr PostWriteCorruption \<and> (\<forall>n. r \<noteq> Inr (Committed n))) \<or>
         ((r = Inr PostWriteCorruption \<or> (\<exists>n. r = Inr (Committed n))) \<and>
          (\<exists>content. files w' = (files w)(SHORTCUTS_FILE \<mapsto> content)))"
    and "r = Inr out \<Longrightarrow> \<not> pre_commit_abort out"
    by blast+
qed


lemma check_and_approve_effect:
  assumes "check_and_approve e w sh c cat = (r, w')"
  shows "(files w' = files w \<and> (asked w' = asked w \<or> asked w' = asked w @ [ConfirmApprove]) \<and>
          r \<noteq> Inr PostWriteCorruption \<and> (\<forall>n. r \<noteq> Inr (Committed n))) \<or>
         (confirm e ConfirmApprove \<and> asked w' = asked w @ [ConfirmApprove] \<and>
          (r = Inr PostWriteCorruption \<or> (\<exists>n. r = Inr (Committed n))) \<and>
          (\<exists>content. files w' = (files w)(SHORTCUTS_FILE \<mapsto> content)))"
proof -
  let ?w1 = "w\<lparr>asked := asked w @ [ConfirmApprove]\<rparr>"
  consider (stop) "files w' = files w" "asked w' = asked w \<or> asked w' = asked w @ [ConfirmApprove]"
      "r \<noteq> Inr PostWriteCorruption" "\<forall>n. r \<noteq> Inr (Committed n)"
    | (go) "confirm e ConfirmApprove" "commit e ?w1 sh c cat = (r, w')"
    using assms
    by (auto simp: check_and_approve_def Let_def split: sum.splits bool.splits if_splits option.splits)
  then show ?thesis
  proof cases
    case stop
    then show ?thesis by blast
  next
    case go
    from commit_effect[OF go(2)] go(1) show ?thesis
      by (auto simp: fun_upd_def)
  qed
qed

lemma resolve_category_effect:
  assumes "resolve_category e w sh cand = (r, w')"
  shows "(files w' = files w \<and> r \<noteq> Inr PostWriteCorruption \<and> (\<forall>n. r \<noteq> Inr (Committed n))) \<or>
         (confirm e ConfirmApprove \<and>
          (r = Inr PostWriteCorruption \<or> (\<exists>n. r = Inr (Committed n))) \<and>
          (\<exists>content. files w' = (files w)(SHORTCUTS_FILE \<mapsto> content)) \<and>
          (\<exists>c. cand = JObj c \<and>
             (if map_of sh (dict_get c ''category'') = None
              then confirm e ConfirmCreateCategory \<and>
                   asked w' = asked w @ [ConfirmCreateCategory, ConfirmApprove]
              else asked w' = asked w @ [ConfirmApprove])))"
proof (cases cand)
  case (JObj c)
  let ?cat = "dict_get c ''category''"
  let ?w1 = "w\<lparr>asked := asked w @ [ConfirmCreateCategory]\<rparr>"
  consider (stop) "files w' = files w" "r \<noteq> Inr PostWriteCorruption" "\<forall>n. r \<noteq> Inr (Committed n)"
    | (new) "map_of sh ?cat = None" "confirm e ConfirmCreateCategory"
        "check_and_approve e ?w1 (dict_set sh ?cat (JArr [])) c ?cat = (r, w')"
    | (old) "map_of sh ?cat \<noteq> None" "check_and_approve e w sh c ?cat = (r, w')"
    using assms JObj
    by (auto simp: resolve_category_def Let_def split: if_splits)
  then show ?thesis
  proof cases
    case stop
    then show ?thesis by blast
  next
    case new
    from check_and_approve_effect[OF new(3)] new(1,2) JObj show ?thesis
      by auto
  next
    case old
    from check_and_approve_effect[OF old(2)] old(1) JObj show ?thesis
      by auto
  qed
qed (use assms in \<open>auto simp: resolve_category_def\<close>)

lemma process_command_logic_effect:
  assumes "process_command_logic e raw w = (r, w')"
  shows "(files w' = files w \<and> r \<noteq> Inr PostWriteCorruption \<and> (\<forall>n. r \<noteq> Inr (Committed n))) \<or>
         (confirm e ConfirmApprove \<and>
          (r = Inr PostWriteCorruption \<or> (\<exists>n. r = Inr (Committed n))) \<and>
          (\<exists>content. files w' = (files w)(SHORTCUTS_FILE \<mapsto> content)) \<and>
          (\<exists>s d c. format_command_with_llm e (files w) raw = Inr (JStr s) \<and>
             parse_llm_output s = Some (JObj c) \<and>
             json_load (files w) SHORTCUTS_FILE = Inr (JObj d) \<and>
             (if map_of (pydict_of d) (dict_get c ''category'') = None
              then confirm e ConfirmCreateCategory \<and>
                   asked w' = asked w @ [ConfirmCreateCategory, ConfirmApprove]
              else asked w' = asked w @ [ConfirmApprove])))"
proof -
  consider (stop) "files w' = files w" "r \<noteq> Inr PostWriteCorruption" "\<forall>n. r \<noteq> Inr (Committed n)"
    | (go) s cand d where "format_command_with_llm e (files w) raw = Inr (JStr s)"
        "parse_llm_output s = Some cand" "json_load (files w) SHORTCUTS_FILE = Inr (JObj d)"
        "resolve_category e w (pydict_of d) cand = (r, w')"
    using assms
    by (auto simp: process_command_logic_def split: if_splits sum.splits json.splits option.splits)
  then show ?thesis
  proof cases
    case stop
    then show ?thesis by blast
  next
    case go
    from resolve_category_effect[OF go(4)] go(1,2,3) show ?thesis
      by auto
  qed
qed

lemma abort_raise:
  "process_command_logic e raw w = (r, w') \<Longrightarrow> (\<exists>x. r = Inl x) \<longrightarrow> files w' = files w"
  using process_command_logic_effect[of e raw w r w'] by auto

section \<open>A store, a candidate and a user to run the workflow on\<close>

text \<open>The body of a chat completion whose message content is the given text.\<close>

definition llm_reply :: "string \<Rightarrow> post_result" where
  "llm_reply content =
     ResponseJson (JObj [(''choices'', JArr [JObj [(''message'', JObj [(''content'', JStr content)])]])])"

definition entry :: "string \<Rightarrow> (string \<times> json) list" where
  "entry command =
     [(''command'', JStr command), (''description'', JStr ''d''), (''usage example'', JStr command)]"

definition example_store :: json where
  "example_store = JObj [(''GIT'', JArr [JObj (entry ''git status'')])]"

definition candidate :: "string \<Rightarrow> string \<Rightarrow> json" where
  "candidate category command = JObj ((''category'', JStr category) # entry command)"

text \<open>The language model answers with the given text, the user answers every prompt the
  same way, the upload succeeds.\<close>

definition example_env :: "string \<Rightarrow> bool \<Rightarrow> environment" where
  "example_env content answer =
     \<lparr>llm_post = (\<lambda>raw_command store. llm_reply content),
      confirm = (\<lambda>p. answer),
      put_succeeds = True\<rparr>"

definition example_world :: "string \<Rightarrow> world" where
  "example_world store_text =
     \<lparr>files = [SHORTCUTS_FILE \<mapsto> store_text, NEW_COMMAND_FILE \<mapsto> ''git log''],
      remote = example_store,
      asked = []\<rparr>"

section \<open>A cycle on a candidate with a string category\<close>

lemma pydict_of_keys [simp]: "map (\<lambda>kv. (key_str (fst kv), snd kv)) (pydict_of d) = d"
  by (induction d) (simp_all add: pydict_of_def)

lemma dumps_pydict_of [simp]: "dumps_pydict (pydict_of d) = json_dumps (JObj d)"
  by (simp add: dumps_pydict_def)

lemma map_of_pydict_of [simp]: "map_of (pydict_of d) (JStr k) = map_of d k"
  by (induction d) (auto simp: pydict_of_def)

lemma dict_set_pydict_of [simp]: "dict_set (pydict_of d) (JStr k) v = pydict_of (dict_set d k v)"
  by (induction d) (auto simp: pydict_of_def)

lemma map_of_dict_set [simp]: "map_of (dict_set d k v) k = Some v"
  by (induction d) auto

lemma dict_set_twice [simp]: "dict_set (dict_set d k v) k v' = dict_set d k v'"
  by (induction d) auto

lemma dict_set_new: "map_of d k = None \<Longrightarrow> dict_set d k v = d @ [(k, v)]"
  by (rule dict_set_fresh) (simp add: map_of_eq_None_iff)

lemma dict_set_member:
  "x \<in> set d \<Longrightarrow> fst x \<noteq> k \<Longrightarrow> x \<in> set (dict_set d k v)"
  by (induction d) auto

lemma distinct_keys_dict_set:
  assumes "distinct_keys (JObj d)" "distinct_keys v"
  shows "distinct_keys (JObj (dict_set d k v))"
proof -
  have "distinct_keys (snd x)" if "x \<in> set (dict_set d k v)" for x
    using dict_set_values[OF that] assms by (auto simp: list_all_iff)
  with assms(1) show ?thesis
    by (simp add: dict_set_distinct list_all_iff)
qed

lemma distinct_keys_filter:
  "distinct_keys (JObj c) \<Longrightarrow> distinct_keys (JObj (filter P c))"
  by (simp add: list_all_iff distinct_map_filter)

lemma json_load_written:
  "distinct_keys v \<Longrightarrow> json_load (fs(p \<mapsto> json_dumps v)) p = Inr v"
  by (simp add: json_load_def json_loads_dumps)

lemma json_load_distinct_keys: "json_load fs p = Inr v \<Longrightarrow> distinct_keys v"
  by (auto simp: json_load_def split: option.splits dest: json_loads_distinct_keys)

text \<open>The entries of the store are dicts; each has a \<open>command\<close> or none.\<close>

fun is_dict :: "json \<Rightarrow> bool" where
  "is_dict (JObj d) = True"
| "is_dict _ = False"

fun command_of :: "json \<Rightarrow> json" where
  "command_of (JObj d) = dict_get d ''command''"
| "command_of _ = JNull"

lemma find_duplicate_dicts:
  "list_all is_dict entries
   \<Longrightarrow> find_duplicate entries p = Inr (list_ex (\<lambda>x. py_eq (command_of x) p) entries)"
proof (induction entries)
  case Nil
  then show ?case by simp
next
  case (Cons x xs)
  then obtain d where "x = JObj d" by (cases x) auto
  with Cons show ?case by simp
qed

text \<open>
  The list of entries a category has in the store: none yet when the category is new.
  A category whose value is not a list has none to speak of.
\<close>

definition entries_at :: "(string \<times> json) list \<Rightarrow> string \<Rightarrow> json list option" where
  "entries_at d k =
     (case map_of d k of
        None \<Rightarrow> Some []
      | Some (JArr xs) \<Rightarrow> Some xs
      | Some _ \<Rightarrow> None)"

text \<open>The store after the candidate has been appended to its category.\<close>

definition store_with :: "(string \<times> json) list \<Rightarrow> string \<Rightarrow> json list \<Rightarrow> (string \<times> json) list \<Rightarrow> json" where
  "store_with d k entries c =
     JObj (dict_set d k (JArr (entries @ [JObj (filter (\<lambda>kv. fst kv \<noteq> ''category'') c)])))"

lemma commit_on_store:
  assumes "map_of d k = Some (JArr entries)" "distinct_keys (JObj d)" "distinct_keys (JObj c)"
  shows "commit e w (pydict_of d) c (JStr k) =
     (if length (splitlines (json_dumps (store_with d k entries c))) < get_line_count (files w) SHORTCUTS_FILE
      then (Inr WriteGuardViolation, w)
      else (Inr (Committed (int (length (readlines (json_dumps (store_with d k entries c))))
                             - int (get_line_count (files w) SHORTCUTS_FILE))),
            w\<lparr>files := (files w)(SHORTCUTS_FILE \<mapsto> json_dumps (store_with d k entries c)),
               remote := (if put_succeeds e then store_with d k entries c else remote w)\<rparr>))"
proof -
  have upd: "updated_text (pydict_of d) c (JStr k) entries = json_dumps (store_with d k entries c)"
    by (simp add: updated_text_def store_with_def)
  have "list_all distinct_keys entries"
    using assms(1,2) map_of_SomeD[OF assms(1)] by (auto simp: list_all_iff)
  then have dk: "distinct_keys (store_with d k entries c)"
    unfolding store_with_def using assms(2,3)
    by (intro distinct_keys_dict_set) (simp_all add: list_all_iff distinct_map_filter)
  have load: "json_load ((files w)(SHORTCUTS_FILE \<mapsto> json_dumps (store_with d k entries c))) SHORTCUTS_FILE
              = Inr (store_with d k entries c)"
    by (rule json_load_written[OF dk])
  have [simp]: "SHORTCUTS_FILE = ''shortcuts.json''" by (simp add: SHORTCUTS_FILE_def)
  show ?thesis
    using load
    by (simp add: commit_list assms(1) upd validate_json_def sync_local_to_cloud_def
        get_line_count_def)
qed


lemma check_and_approve_on_store:
  assumes "map_of d k = Some (JArr entries)" "list_all is_dict entries"
    "distinct_keys (JObj d)" "distinct_keys (JObj c)"
  shows "check_and_approve e w (pydict_of d) c (JStr k) =
     (if list_ex (\<lambda>x. py_eq (command_of x) (dict_get c ''command'')) entries
      then (Inr DuplicateCommand, w)
      else if \<not> confirm e ConfirmApprove
      then (Inr UserRejectedCandidate, w\<lparr>asked := asked w @ [ConfirmApprove]\<rparr>)
      else commit e (w\<lparr>asked := asked w @ [ConfirmApprove]\<rparr>) (pydict_of d) c (JStr k))"
  using assms(1)
  by (simp add: check_and_approve_def Let_def find_duplicate_dicts[OF assms(2)])

text \<open>
  The workflow on a non-empty raw command, a formatter output that parses to a dict with
  a non-empty string under \<open>category\<close>, and a store whose category, if it is there, holds a
  list of dicts: what it returns and the state it leaves, exit by exit.
\<close>

lemma cycle_on_candidate:
  assumes raw: "raw_command \<noteq> []"
    and llm: "format_command_with_llm e (files w) raw_command = Inr (JStr s)"
    and cand: "parse_llm_output s = Some (JObj c)"
    and cat: "dict_get c ''category'' = JStr k" "k \<noteq> []"
    and store: "json_load (files w) SHORTCUTS_FILE = Inr (JObj d)"
    and ent: "entries_at d k = Some entries" "list_all is_dict entries"
  shows "process_command_logic e raw_command w =
     (let pre = (if map_of d k = None then [ConfirmCreateCategory] else []);
          content = json_dumps (store_with d k entries c)
      in if map_of d k = None \<and> \<not> confirm e ConfirmCreateCategory
         then (Inr UserRejectedCategory, w\<lparr>asked := asked w @ pre\<rparr>)
         else if list_ex (\<lambda>x. py_eq (command_of x) (dict_get c ''command'')) entries
         then (Inr DuplicateCommand, w\<lparr>asked := asked w @ pre\<rparr>)
         else if \<not> confirm e ConfirmApprove
         then (Inr UserRejectedCandidate, w\<lparr>asked := asked w @ pre @ [ConfirmApprove]\<rparr>)
         else if length (splitlines content) < get_line_count (files w) SHORTCUTS_FILE
         then (Inr WriteGuardViolation, w\<lparr>asked := asked w @ pre @ [ConfirmApprove]\<rparr>)
         else (Inr (Committed (int (length (readlines content))
                                - int (get_line_count (files w) SHORTCUTS_FILE))),
               w\<lparr>files := (files w)(SHORTCUTS_FILE \<mapsto> content),
                  remote := (if put_succeeds e then store_with d k entries c else remote w),
                  asked := asked w @ pre @ [ConfirmApprove]\<rparr>))"
proof -
  have dd: "distinct_keys (JObj d)" using store by (rule json_load_distinct_keys)
  have dc: "distinct_keys (JObj c)"
    using cand by (auto simp: parse_llm_output_def dest: json_loads_distinct_keys)
  have start: "process_command_logic e raw_command w = resolve_category e w (pydict_of d) (JObj c)"
    using raw llm cand store by (simp add: process_command_logic_def)
  show ?thesis
  proof (cases "map_of d k")
    case None
    then have e0: "entries = []" using ent(1) by (simp add: entries_at_def)
    let ?d1 = "dict_set d k (JArr [])"
    have m1: "map_of ?d1 k = Some (JArr [])" by simp
    have d1: "distinct_keys (JObj ?d1)" using dd by (intro distinct_keys_dict_set) simp_all
    have sw: "store_with ?d1 k [] c = store_with d k [] c" by (simp add: store_with_def)
    have "resolve_category e w (pydict_of d) (JObj c) =
        (if \<not> confirm e ConfirmCreateCategory
         then (Inr UserRejectedCategory, w\<lparr>asked := asked w @ [ConfirmCreateCategory]\<rparr>)
         else check_and_approve e (w\<lparr>asked := asked w @ [ConfirmCreateCategory]\<rparr>) (pydict_of ?d1) c (JStr k))"
      using None cat by (simp add: resolve_category_def Let_def)
    then show ?thesis
      using None e0 start
      by (simp add: check_and_approve_on_store[OF m1 _ d1 dc] commit_on_store[OF m1 d1 dc] sw Let_def)
  next
    case (Some v)
    then have m: "map_of d k = Some (JArr entries)"
      using ent(1) by (cases v) (simp_all add: entries_at_def)
    have "resolve_category e w (pydict_of d) (JObj c) = check_and_approve e w (pydict_of d) c (JStr k)"
      using m cat by (simp add: resolve_category_def Let_def)
    then show ?thesis
      using m start
      by (simp add: check_and_approve_on_store[OF m ent(2) dd dc] commit_on_store[OF m dd dc] Let_def)
  qed
qed

lemma map_of_dict_set_other: "k' \<noteq> k \<Longrightarrow> map_of (dict_set d k v) k' = map_of d k'"
  by (induction d) auto

lemma keys_dict_set_present: "map_of d k = Some u \<Longrightarrow> map fst (dict_set d k v) = map fst d"
  by (induction d) (auto split: if_splits)

lemma get_line_count_written [simp]:
  "get_line_count (fs(p \<mapsto> content)) p = length (readlines content)"
  by (simp add: get_line_count_def)

lemma store_with_loads:
  assumes "json_load fs p = Inr (JObj d)" "parse_llm_output s = Some (JObj c)"
    "entries_at d k = Some entries"
  shows "json_load (fs(p \<mapsto> json_dumps (store_with d k entries c))) p = Inr (store_with d k entries c)"
proof -
  have dd: "distinct_keys (JObj d)" using assms(1) by (rule json_load_distinct_keys)
  have dc: "distinct_keys (JObj c)"
    using assms(2) by (auto simp: parse_llm_output_def dest: json_loads_distinct_keys)
  have "list_all distinct_keys entries"
  proof (cases "map_of d k")
    case None
    with assms(3) show ?thesis by (simp add: entries_at_def)
  next
    case (Some v)
    with assms(3) have "map_of d k = Some (JArr entries)"
      by (cases v) (simp_all add: entries_at_def)
    from map_of_SomeD[OF this] dd show ?thesis by (auto simp: list_all_iff)
  qed
  then have "distinct_keys (store_with d k entries c)"
    unfolding store_with_def using dd dc
    by (intro distinct_keys_dict_set) (simp_all add: list_all_iff distinct_map_filter)
  then show ?thesis by (rule json_load_written)
qed

lemma dict_get_filter: "b \<noteq> a \<Longrightarrow> dict_get (filter (\<lambda>kv. fst kv \<noteq> a) c) b = dict_get c b"
proof -
  assume "b \<noteq> a"
  then have "map_of (filter (\<lambda>kv. fst kv \<noteq> a) c) b = map_of c b"
    by (induction c) auto
  then show ?thesis by (simp add: dict_get_def)
qed

lemma py_eq_strings [simp]: "py_eq (JStr a) (JStr b) = (a = b)"
  by auto

lemma duplicate_found:
  assumes "raw_command \<noteq> []"
    and "format_command_with_llm e (files w) raw_command = Inr (JStr s)"
    and "parse_llm_output s = Some (JObj c)"
    and "dict_get c ''category'' = JStr k" "k \<noteq> []"
    and "json_load (files w) SHORTCUTS_FILE = Inr (JObj d)"
    and "map_of d k = Some (JArr entries)" "list_all is_dict entries"
    and "JObj x \<in> set entries" "py_eq (dict_get x ''command'') (dict_get c ''command'')"
  shows "process_command_logic e raw_command w = (Inr DuplicateCommand, w)"
proof -
  have ent: "entries_at d k = Some entries" using assms(7) by (simp add: entries_at_def)
  have "list_ex (\<lambda>x. py_eq (command_of x) (dict_get c ''command'')) entries"
    using assms(9,10) by (auto simp: list_ex_iff intro!: bexI[of _ "JObj x"])
  then show ?thesis
    using cycle_on_candidate[OF assms(1-6) ent assms(8)] assms(7) by simp
qed

lemma second_submission:
  assumes "raw_command \<noteq> []"
    and "format_command_with_llm e (files w) raw_command = Inr (JStr s)"
    and "parse_llm_output s = Some (JObj c)"
    and "dict_get c ''category'' = JStr k" "k \<noteq> []"
    and "json_load (files w) SHORTCUTS_FILE = Inr (JObj d)"
    and "entries_at d k = Some entries" "list_all is_dict entries"
    and "dict_get c ''command'' = JStr cmd"
    and "process_command_logic e raw_command w = (Inr (Committed n), w1)"
    and "raw2 \<noteq> []"
    and "format_command_with_llm e2 (files w1) raw2 = Inr (JStr s2)"
    and "parse_llm_output s2 = Some (JObj c2)"
    and "dict_get c2 ''category'' = JStr k"
    and "dict_get c2 ''command'' = JStr cmd"
  shows "process_command_logic e2 raw2 w1 = (Inr DuplicateCommand, w1) \<and>
         (\<exists>d1 es. json_load (files w1) SHORTCUTS_FILE = Inr (JObj d1) \<and>
            map_of d1 k = Some (JArr es) \<and>
            length (filter (\<lambda>x. py_eq (command_of x) (JStr cmd)) es) = 1)"
proof -
  let ?new = "JObj (filter (\<lambda>kv. fst kv \<noteq> ''category'') c)"
  let ?d1 = "dict_set d k (JArr (entries @ [?new]))"
  note run = cycle_on_candidate[OF assms(1-8), unfolded Let_def]
  from run assms(10)
  have nodup: "\<not> list_ex (\<lambda>x. py_eq (command_of x) (dict_get c ''command'')) entries"
    and f: "files w1 = (files w)(SHORTCUTS_FILE \<mapsto> json_dumps (store_with d k entries c))"
    by (auto split: if_splits)
  have l: "json_load (files w1) SHORTCUTS_FILE = Inr (JObj ?d1)"
    using store_with_loads[OF assms(6) assms(3) assms(7)] f by (simp add: store_with_def)
  have m: "map_of ?d1 k = Some (JArr (entries @ [?new]))" by simp
  have cmd: "dict_get (filter (\<lambda>kv. fst kv \<noteq> ''category'') c) ''command'' = JStr cmd"
    using assms(9) by (simp add: dict_get_filter)
  have dicts: "list_all is_dict (entries @ [?new])" using assms(8) by simp
  have "process_command_logic e2 raw2 w1 = (Inr DuplicateCommand, w1)"
    by (rule duplicate_found[OF assms(11,12,13,14) assms(5) l m dicts, of "filter (\<lambda>kv. fst kv \<noteq> ''category'') c"])
       (simp_all add: cmd assms(15))
  moreover have "filter (\<lambda>x. py_eq (command_of x) (JStr cmd)) entries = []"
    using nodup assms(9) by (simp add: list_ex_iff filter_empty_conv)
  then have "length (filter (\<lambda>x. py_eq (command_of x) (JStr cmd)) (entries @ [?new])) = 1"
    by (simp add: cmd)
  ultimately show ?thesis using l m by blast
qed

lemma map_of_filter_other:
  "b \<noteq> a \<Longrightarrow> map_of (filter (\<lambda>kv. fst kv \<noteq> a) c) b = map_of c b"
  by (induction c) auto






lemma process_new_command_clears_on_return:
  assumes "process_new_command e w = (Inr out, w')"
  shows "files w' NEW_COMMAND_FILE = Some []"
  using assms
  by (auto simp: process_new_command_def Let_def split: option.splits prod.splits sum.splits)

section \<open>The safe writer\<close>




section \<open>Aborts and the store file\<close>

text \<open>
  C3. When a cycle ends at one of the exits before the commit step (no command, formatter
  failure, malformed output, missing category, category declined, duplicate command,
  candidate declined), no file has changed; the same holds when it raises. And when a
  file has changed, the user has confirmed the approval prompt, shown last; if the
  candidate's category was not a key of the store, the user has also confirmed its
  creation before.
\<close>

theorem abort_leaves_files_unchanged:
  assumes "process_command_logic e raw_command w = (r, w')"
  shows "(\<forall>out. r = Inr out \<longrightarrow> pre_commit_abort out \<longrightarrow> files w' = files w) \<and>
         (\<forall>x. r = Inl x \<longrightarrow> files w' = files w) \<and>
         (files w' \<noteq> files w \<longrightarrow>
            confirm e ConfirmApprove \<and>
            (\<exists>s d c. format_command_with_llm e (files w) raw_command = Inr (JStr s) \<and>
               parse_llm_output s = Some (JObj c) \<and>
               json_load (files w) SHORTCUTS_FILE = Inr (JObj d) \<and>
               (if map_of (pydict_of d) (dict_get c ''category'') = None
                then confirm e ConfirmCreateCategory \<and>
                     asked w' = asked w @ [ConfirmCreateCategory, ConfirmApprove]
                else asked w' = asked w @ [ConfirmApprove])))"
proof (rule disjE[OF process_command_logic_effect[OF assms]])
  assume "files w' = files w \<and> r \<noteq> Inr PostWriteCorruption \<and> (\<forall>n. r \<noteq> Inr (Committed n))"
  then show ?thesis by simp
next
  assume changed: "confirm e ConfirmApprove \<and>
          (r = Inr PostWriteCorruption \<or> (\<exists>n. r = Inr (Committed n))) \<and>
          (\<exists>content. files w' = (files w)(SHORTCUTS_FILE \<mapsto> content)) \<and>
          (\<exists>s d c. format_command_with_llm e (files w) raw_command = Inr (JStr s) \<and>
             parse_llm_output s = Some (JObj c) \<and>
             json_load (files w) SHORTCUTS_FILE = Inr (JObj d) \<and>
             (if map_of (pydict_of d) (dict_get c ''category'') = None
              then confirm e ConfirmCreateCategory \<and>
                   asked w' = asked w @ [ConfirmCreateCategory, ConfirmApprove]
              else asked w' = asked w @ [ConfirmApprove]))"
  then have "\<forall>out. r = Inr out \<longrightarrow> \<not> pre_commit_abort out" by auto
  moreover from changed have "\<forall>x. r \<noteq> Inl x" by auto
  ultimately show ?thesis using changed by blast
qed

theorem abort_leaves_files_unchanged_witness:
  "fst (process_command_logic (example_env (json_dumps (candidate ''GIT'' ''git status'')) True)
          ''git status'' (example_world (json_dumps example_store))) = Inr DuplicateCommand \<and>
   pre_commit_abort DuplicateCommand \<and>
   files (snd (process_command_logic (example_env (json_dumps (candidate ''GIT'' ''git status'')) True)
          ''git status'' (example_world (json_dumps example_store))))
     = files (example_world (json_dumps example_store)) \<and>
   files (snd (process_command_logic (example_env (json_dumps (candidate ''GIT'' ''git log'')) True)
          ''git log'' (example_world (json_dumps example_store))))
     \<noteq> files (example_world (json_dumps example_store)) \<and>
   confirm (example_env (json_dumps (candidate ''GIT'' ''git log'')) True) ConfirmApprove"
proof -
  let ?e1 = "example_env (json_dumps (candidate ''GIT'' ''git status'')) True"
  let ?e2 = "example_env (json_dumps (candidate ''GIT'' ''git log'')) True"
  let ?w = "example_world (json_dumps example_store)"
  have a: "fst (process_command_logic ?e1 ''git status'' ?w) = Inr DuplicateCommand"
    by code_simp
  have "files (snd (process_command_logic ?e2 ''git log'' ?w)) SHORTCUTS_FILE \<noteq> files ?w SHORTCUTS_FILE"
    by code_simp
  then have b: "files (snd (process_command_logic ?e2 ''git log'' ?w)) \<noteq> files ?w"
    by metis
  from abort_leaves_files_unchanged[OF surjective_pairing, of ?e1 "''git status''" ?w] a
  have c: "files (snd (process_command_logic ?e1 ''git status'' ?w)) = files ?w"
    by simp
  from abort_leaves_files_unchanged[OF surjective_pairing, of ?e2 "''git log''" ?w] b
  have d: "confirm ?e2 ConfirmApprove"
    by simp
  from a b c d show ?thesis by simp
qed

section \<open>The pending-input file\<close>

text \<open>
  C5. The claim: at the end of every run of \<open>process_new_command\<close>, whatever the
  outcome of the cycle, the pending-input file holds the empty string. The code clears
  the file after \<open>_process_command_logic\<close> has returned, and does not reach that line
  when it raises. First run below: there is no store file, and \<open>format_command_with_llm\<close>
  raises \<open>FileNotFoundError\<close> where it opens it. Second run: the store is there and the
  formatter output is the JSON list \<open>[]\<close>, on which \<open>formatted_command.get\<close> raises
  \<open>AttributeError\<close>. After both runs the pending-input file still holds the command.
\<close>

theorem pending_input_not_cleared_on_raise:
  "fst (process_new_command (example_env (json_dumps (candidate ''GIT'' ''git log'')) True)
          \<lparr>files = [NEW_COMMAND_FILE \<mapsto> ''git log''], remote = example_store, asked = []\<rparr>)
     = Inl FileNotFoundError \<and>
   files (snd (process_new_command (example_env (json_dumps (candidate ''GIT'' ''git log'')) True)
          \<lparr>files = [NEW_COMMAND_FILE \<mapsto> ''git log''], remote = example_store, asked = []\<rparr>))
     NEW_COMMAND_FILE = Some ''git log'' \<and>
   fst (process_new_command (example_env ''[]'' True) (example_world (json_dumps example_store)))
     = Inl AttributeError \<and>
   files (snd (process_new_command (example_env ''[]'' True) (example_world (json_dumps example_store))))
     NEW_COMMAND_FILE = Some ''git log''"
  by code_simp

section \<open>The fenced-code wrapper\<close>

definition TICKS :: string where
  "TICKS = [CHR 0x60, CHR 0x60, CHR 0x60]"

text \<open>
  C9. Whatever the response: without the 7-character prefix after stripping, the response
  is parsed as it is; with it, the text parsed is the stripped response without its first
  7 and its last 3 characters, stripped again, whatever those 3 characters are (nothing
  is left when fewer than 10 characters were there); and the outcome of parsing that text
  is final. A response that opens the fence and never closes it loses the last three
  characters of its payload: the payload alone is JSON, the cycle ends as a parse failure.
\<close>

theorem fence_stripping:
  "(\<not> prefix FENCE (py_strip s) \<longrightarrow> strip_fence s = s) \<and>
   (prefix FENCE (py_strip s) \<longrightarrow>
      strip_fence s = py_strip (drop 7 (take (length (py_strip s) - 3) (py_strip s)))) \<and>
   (\<forall>body tail. py_strip s = FENCE @ body @ tail \<longrightarrow> length tail = 3 \<longrightarrow>
      strip_fence s = py_strip body) \<and>
   (prefix FENCE (py_strip s) \<longrightarrow> length (py_strip s) < 10 \<longrightarrow> strip_fence s = []) \<and>
   parse_llm_output s = json_loads (strip_fence s) \<and>
   (prefix FENCE (py_strip (FENCE @ LF # json_dumps (candidate ''GIT'' ''git log''))) \<and>
    \<not> suffix TICKS (py_strip (FENCE @ LF # json_dumps (candidate ''GIT'' ''git log''))) \<and>
    json_loads (json_dumps (candidate ''GIT'' ''git log'')) = Some (candidate ''GIT'' ''git log'') \<and>
    strip_fence (FENCE @ LF # json_dumps (candidate ''GIT'' ''git log''))
      = take (length (json_dumps (candidate ''GIT'' ''git log'')) - 3)
             (json_dumps (candidate ''GIT'' ''git log'')) \<and>
    parse_llm_output (FENCE @ LF # json_dumps (candidate ''GIT'' ''git log'')) = None \<and>
    fst (process_command_logic
           (example_env (FENCE @ LF # json_dumps (candidate ''GIT'' ''git log'')) True)
           ''git log'' (example_world (json_dumps example_store))) = Inr MalformedLLMOutput)"
proof -
  have len: "length FENCE = 7" by (simp add: FENCE_def)
  have a: "\<not> prefix FENCE (py_strip s) \<longrightarrow> strip_fence s = s"
    by (simp add: strip_fence_def)
  have b: "prefix FENCE (py_strip s) \<longrightarrow>
      strip_fence s = py_strip (drop 7 (take (length (py_strip s) - 3) (py_strip s)))"
    by (simp add: strip_fence_def)
  have c: "strip_fence s = py_strip body"
    if "py_strip s = FENCE @ body @ tail" "length tail = 3" for body tail
    using that len by (simp add: strip_fence_def)
  have d: "prefix FENCE (py_strip s) \<longrightarrow> length (py_strip s) < 10 \<longrightarrow> strip_fence s = []"
    by (auto simp: strip_fence_def py_strip_def)
  have e: "parse_llm_output s = json_loads (strip_fence s)"
    by (simp add: parse_llm_output_def)
  have f: "prefix FENCE (py_strip (FENCE @ LF # json_dumps (candidate ''GIT'' ''git log''))) \<and>
    \<not> suffix TICKS (py_strip (FENCE @ LF # json_dumps (candidate ''GIT'' ''git log''))) \<and>
    json_loads (json_dumps (candidate ''GIT'' ''git log'')) = Some (candidate ''GIT'' ''git log'') \<and>
    strip_fence (FENCE @ LF # json_dumps (candidate ''GIT'' ''git log''))
      = take (length (json_dumps (candidate ''GIT'' ''git log'')) - 3)
             (json_dumps (candidate ''GIT'' ''git log'')) \<and>
    parse_llm_output (FENCE @ LF # json_dumps (candidate ''GIT'' ''git log'')) = None \<and>
    fst (process_command_logic
           (example_env (FENCE @ LF # json_dumps (candidate ''GIT'' ''git log'')) True)
           ''git log'' (example_world (json_dumps example_store))) = Inr MalformedLLMOutput"
    by code_simp
  from a b c d e f show ?thesis by blast
qed

theorem fence_stripping_witness:
  "py_strip (FENCE @ LF # json_dumps (candidate ''GIT'' ''git log'') @ LF # TICKS)
     = FENCE @ (LF # json_dumps (candidate ''GIT'' ''git log'') @ [LF]) @ TICKS \<and>
   length TICKS = 3 \<and>
   strip_fence (FENCE @ LF # json_dumps (candidate ''GIT'' ''git log'') @ LF # TICKS)
     = py_strip (LF # json_dumps (candidate ''GIT'' ''git log'') @ [LF]) \<and>
   \<not> prefix FENCE (py_strip (json_dumps (candidate ''GIT'' ''git log''))) \<and>
   strip_fence (json_dumps (candidate ''GIT'' ''git log'')) = json_dumps (candidate ''GIT'' ''git log'')"
proof -
  let ?p = "json_dumps (candidate ''GIT'' ''git log'')"
  have a: "py_strip (FENCE @ LF # ?p @ LF # TICKS) = FENCE @ (LF # ?p @ [LF]) @ TICKS"
    by code_simp
  have b: "length TICKS = 3" by (simp add: TICKS_def)
  have c: "\<not> prefix FENCE (py_strip ?p)" by code_simp
  from fence_stripping[of "FENCE @ LF # ?p @ LF # TICKS"] a b
  have d: "strip_fence (FENCE @ LF # ?p @ LF # TICKS) = py_strip (LF # ?p @ [LF])"
    by blast
  from fence_stripping[of ?p] c
  have e: "strip_fence ?p = ?p" by blast
  from a b c d e show ?thesis by blast
qed

section \<open>The commit\<close>

text \<open>
  C1, amended. A non-empty raw command; a formatter output that parses to a dict with a
  non-empty string category that is a key of the store; the entries of that category are
  dicts, none with a \<open>command\<close> equal to the candidate's; the user approves. If the
  serialized new store has at least as many lines as the store file, the cycle commits:
  the file holds the serialization of a store that reads back with the candidate, its
  \<open>category\<close> key removed, appended to the entries of the category, every other category
  and the order of the keys as before, and the line count has not decreased. If it has
  fewer lines, the safe writer refuses and the file stays as it was.
\<close>

theorem commit_appends_one_entry:
  assumes "raw_command \<noteq> []"
    and "format_command_with_llm e (files w) raw_command = Inr (JStr s)"
    and "parse_llm_output s = Some (JObj c)"
    and "dict_get c ''category'' = JStr k" "k \<noteq> []"
    and "json_load (files w) SHORTCUTS_FILE = Inr (JObj d)"
    and "map_of d k = Some (JArr entries)" "list_all is_dict entries"
    and "\<not> list_ex (\<lambda>x. py_eq (command_of x) (dict_get c ''command'')) entries"
    and "confirm e ConfirmApprove"
    and "process_command_logic e raw_command w = (r, w')"
  shows "(get_line_count (files w) SHORTCUTS_FILE
            \<le> length (splitlines (json_dumps (store_with d k entries c))) \<longrightarrow>
          (\<exists>n d'. r = Inr (Committed n) \<and> 0 \<le> n \<and>
             files w' = (files w)(SHORTCUTS_FILE \<mapsto> json_dumps (JObj d')) \<and>
             json_load (files w') SHORTCUTS_FILE = Inr (JObj d') \<and>
             map_of d' k = Some (JArr (entries @ [JObj (filter (\<lambda>kv. fst kv \<noteq> ''category'') c)])) \<and>
             (\<forall>k'. k' \<noteq> k \<longrightarrow> map_of d' k' = map_of d k') \<and>
             map fst d' = map fst d \<and>
             get_line_count (files w) SHORTCUTS_FILE \<le> get_line_count (files w') SHORTCUTS_FILE)) \<and>
         (length (splitlines (json_dumps (store_with d k entries c)))
            < get_line_count (files w) SHORTCUTS_FILE \<longrightarrow>
          r = Inr WriteGuardViolation \<and> files w' = files w)"
proof -
  let ?d' = "dict_set d k (JArr (entries @ [JObj (filter (\<lambda>kv. fst kv \<noteq> ''category'') c)]))"
  let ?content = "json_dumps (store_with d k entries c)"
  have ent: "entries_at d k = Some entries" using assms(7) by (simp add: entries_at_def)
  have sw: "store_with d k entries c = JObj ?d'" by (simp add: store_with_def)
  have agree: "length (splitlines ?content) = length (readlines ?content)"
    by (simp add: json_dumps_def line_counts_agree plain_dumps_at)
  note run = cycle_on_candidate[OF assms(1-6) ent assms(8), unfolded Let_def]
  have refused: "r = Inr WriteGuardViolation \<and> files w' = files w"
    if "length (splitlines ?content) < get_line_count (files w) SHORTCUTS_FILE"
    using that assms(7,9,10,11) run by auto
  have committed: "\<exists>n d'. r = Inr (Committed n) \<and> 0 \<le> n \<and>
             files w' = (files w)(SHORTCUTS_FILE \<mapsto> json_dumps (JObj d')) \<and>
             json_load (files w') SHORTCUTS_FILE = Inr (JObj d') \<and>
             map_of d' k = Some (JArr (entries @ [JObj (filter (\<lambda>kv. fst kv \<noteq> ''category'') c)])) \<and>
             (\<forall>k'. k' \<noteq> k \<longrightarrow> map_of d' k' = map_of d k') \<and>
             map fst d' = map fst d \<and>
             get_line_count (files w) SHORTCUTS_FILE \<le> get_line_count (files w') SHORTCUTS_FILE"
    if ok: "get_line_count (files w) SHORTCUTS_FILE \<le> length (splitlines ?content)"
  proof -
    from ok assms(7,9,10,11) run
    have r: "r = Inr (Committed (int (length (readlines ?content))
                                - int (get_line_count (files w) SHORTCUTS_FILE)))"
      and f: "files w' = (files w)(SHORTCUTS_FILE \<mapsto> ?content)"
      by auto
    have l: "json_load (files w') SHORTCUTS_FILE = Inr (JObj ?d')"
      using store_with_loads[OF assms(6) assms(3) ent] f sw by simp
    have n: "0 \<le> int (length (readlines ?content)) - int (get_line_count (files w) SHORTCUTS_FILE)"
      using ok agree by simp
    have c1: "get_line_count (files w) SHORTCUTS_FILE \<le> get_line_count (files w') SHORTCUTS_FILE"
      using f ok agree by simp
    show ?thesis
      using r f l n c1 sw
      by (intro exI[of _ "int (length (readlines ?content)) - int (get_line_count (files w) SHORTCUTS_FILE)"]
                exI[of _ ?d'])
         (simp add: map_of_dict_set_other keys_dict_set_present[OF assms(7)])
  qed
  from refused committed show ?thesis by blast
qed


theorem commit_appends_one_entry_witness:
  "format_command_with_llm (example_env (json_dumps (candidate ''GIT'' ''git log'')) True)
     (files (example_world (json_dumps example_store))) ''git log''
     = Inr (JStr (json_dumps (candidate ''GIT'' ''git log''))) \<and>
   json_load (files (example_world (json_dumps example_store))) SHORTCUTS_FILE = Inr example_store \<and>
   get_line_count (files (example_world (json_dumps example_store))) SHORTCUTS_FILE
     \<le> length (splitlines (json_dumps
          (store_with [(''GIT'', JArr [JObj (entry ''git status'')])] ''GIT''
             [JObj (entry ''git status'')] ((''category'', JStr ''GIT'') # entry ''git log'')))) \<and>
   (\<exists>n d'. fst (process_command_logic (example_env (json_dumps (candidate ''GIT'' ''git log'')) True)
                  ''git log'' (example_world (json_dumps example_store))) = Inr (Committed n) \<and>
      json_load (files (snd (process_command_logic
                  (example_env (json_dumps (candidate ''GIT'' ''git log'')) True)
                  ''git log'' (example_world (json_dumps example_store))))) SHORTCUTS_FILE
        = Inr (JObj d') \<and>
      map_of d' ''GIT'' = Some (JArr [JObj (entry ''git status''), JObj (entry ''git log'')]) \<and>
      map fst d' = [''GIT''])"
proof -
  let ?e = "example_env (json_dumps (candidate ''GIT'' ''git log'')) True"
  let ?w = "example_world (json_dumps example_store)"
  let ?c = "(''category'', JStr ''GIT'') # entry ''git log''"
  let ?d = "[(''GIT'', JArr [JObj (entry ''git status'')])]"
  have h1: "''git log'' \<noteq> []" by simp
  have h2: "format_command_with_llm ?e (files ?w) ''git log''
            = Inr (JStr (json_dumps (candidate ''GIT'' ''git log'')))" by code_simp
  have h3: "parse_llm_output (json_dumps (candidate ''GIT'' ''git log'')) = Some (JObj ?c)" by code_simp
  have h4: "dict_get ?c ''category'' = JStr ''GIT''" by code_simp
  have h5: "''GIT'' \<noteq> []" by simp
  have h6: "json_load (files ?w) SHORTCUTS_FILE = Inr (JObj ?d)" by code_simp
  have h7: "map_of ?d ''GIT'' = Some (JArr [JObj (entry ''git status'')])" by simp
  have h8: "list_all is_dict [JObj (entry ''git status'')]" by simp
  have h9: "\<not> list_ex (\<lambda>x. py_eq (command_of x) (dict_get ?c ''command'')) [JObj (entry ''git status'')]"
    by code_simp
  have h10: "confirm ?e ConfirmApprove" by (simp add: example_env_def)
  have g: "get_line_count (files ?w) SHORTCUTS_FILE
     \<le> length (splitlines (json_dumps (store_with ?d ''GIT'' [JObj (entry ''git status'')] ?c)))"
    by code_simp
  have f: "filter (\<lambda>kv. fst kv \<noteq> ''category'') ?c = entry ''git log''"
    by (simp add: entry_def)
  from commit_appends_one_entry[OF h1 h2 h3 h4 h5 h6 h7 h8 h9 h10 surjective_pairing] g
  obtain n d' where
    "fst (process_command_logic ?e ''git log'' ?w) = Inr (Committed n)"
    "json_load (files (snd (process_command_logic ?e ''git log'' ?w))) SHORTCUTS_FILE = Inr (JObj d')"
    "map_of d' ''GIT'' = Some (JArr ([JObj (entry ''git status'')] @ [JObj (filter (\<lambda>kv. fst kv \<noteq> ''category'') ?c)]))"
    "map fst d' = map fst ?d"
    by blast
  then have "\<exists>n d'. fst (process_command_logic ?e ''git log'' ?w) = Inr (Committed n) \<and>
      json_load (files (snd (process_command_logic ?e ''git log'' ?w))) SHORTCUTS_FILE = Inr (JObj d') \<and>
      map_of d' ''GIT'' = Some (JArr [JObj (entry ''git status''), JObj (entry ''git log'')]) \<and>
      map fst d' = [''GIT'']"
    using f by auto
  with h2 h6 g show ?thesis by (simp add: example_store_def)
qed

text \<open>
  The claim as stated fails. The store file below is the store followed by blank lines,
  18 lines in all; the new store serializes to 14 lines. Every condition of the claim
  holds, the user approves, and the safe writer refuses: nothing is appended.
\<close>

theorem commit_refused_on_longer_file:
  "json_load (files (example_world (json_dumps example_store @ replicate 10 LF))) SHORTCUTS_FILE
     = Inr example_store \<and>
   parse_llm_output (json_dumps (candidate ''GIT'' ''git log'')) = Some (candidate ''GIT'' ''git log'') \<and>
   \<not> list_ex (\<lambda>x. py_eq (command_of x) (JStr ''git log'')) [JObj (entry ''git status'')] \<and>
   confirm (example_env (json_dumps (candidate ''GIT'' ''git log'')) True) ConfirmApprove \<and>
   get_line_count (files (example_world (json_dumps example_store @ replicate 10 LF))) SHORTCUTS_FILE = 18 \<and>
   fst (process_command_logic (example_env (json_dumps (candidate ''GIT'' ''git log'')) True)
          ''git log'' (example_world (json_dumps example_store @ replicate 10 LF)))
     = Inr WriteGuardViolation \<and>
   files (snd (process_command_logic (example_env (json_dumps (candidate ''GIT'' ''git log'')) True)
          ''git log'' (example_world (json_dumps example_store @ replicate 10 LF)))) SHORTCUTS_FILE
     = Some (json_dumps example_store @ replicate 10 LF)"
  by code_simp

section \<open>Duplicates\<close>

text \<open>
  C4. When the category of the candidate holds an entry whose \<open>command\<close> is the same
  string as the candidate's, the cycle ends as a duplicate and the state is the one it
  started from: no prompt has been shown, no file written. Two strings are equal for
  \<open>==\<close> exactly when they are the same string. So after a cycle has committed a candidate
  with a string command, a second cycle whose candidate has the same category and the
  same command ends as a duplicate too, and the category holds one entry with that
  command.
\<close>

theorem duplicate_command_aborts:
  "(raw_command \<noteq> [] \<and>
    format_command_with_llm e (files w) raw_command = Inr (JStr s) \<and>
    parse_llm_output s = Some (JObj c) \<and>
    dict_get c ''category'' = JStr k \<and> k \<noteq> [] \<and>
    json_load (files w) SHORTCUTS_FILE = Inr (JObj d) \<and>
    map_of d k = Some (JArr entries) \<and> list_all is_dict entries \<and>
    JObj x \<in> set entries \<and> dict_get x ''command'' = JStr cmd \<and> dict_get c ''command'' = JStr cmd
    \<longrightarrow> process_command_logic e raw_command w = (Inr DuplicateCommand, w)) \<and>
   py_eq (JStr a) (JStr b) = (a = b) \<and>
   (raw_command \<noteq> [] \<and>
    format_command_with_llm e (files w) raw_command = Inr (JStr s) \<and>
    parse_llm_output s = Some (JObj c) \<and>
    dict_get c ''category'' = JStr k \<and> k \<noteq> [] \<and>
    json_load (files w) SHORTCUTS_FILE = Inr (JObj d) \<and>
    entries_at d k = Some entries \<and> list_all is_dict entries \<and>
    dict_get c ''command'' = JStr cmd \<and>
    process_command_logic e raw_command w = (Inr (Committed n), w1) \<and>
    raw2 \<noteq> [] \<and>
    format_command_with_llm e2 (files w1) raw2 = Inr (JStr s2) \<and>
    parse_llm_output s2 = Some (JObj c2) \<and>
    dict_get c2 ''category'' = JStr k \<and>
    dict_get c2 ''command'' = JStr cmd
    \<longrightarrow> process_command_logic e2 raw2 w1 = (Inr DuplicateCommand, w1) \<and>
        (\<exists>d1 es. json_load (files w1) SHORTCUTS_FILE = Inr (JObj d1) \<and>
            map_of d1 k = Some (JArr es) \<and>
            length (filter (\<lambda>x. py_eq (command_of x) (JStr cmd)) es) = 1))"
proof (intro conjI impI)
  assume h: "raw_command \<noteq> [] \<and>
    format_command_with_llm e (files w) raw_command = Inr (JStr s) \<and>
    parse_llm_output s = Some (JObj c) \<and>
    dict_get c ''category'' = JStr k \<and> k \<noteq> [] \<and>
    json_load (files w) SHORTCUTS_FILE = Inr (JObj d) \<and>
    map_of d k = Some (JArr entries) \<and> list_all is_dict entries \<and>
    JObj x \<in> set entries \<and> dict_get x ''command'' = JStr cmd \<and> dict_get c ''command'' = JStr cmd"
  then have "py_eq (dict_get x ''command'') (dict_get c ''command'')" by simp
  with h show "process_command_logic e raw_command w = (Inr DuplicateCommand, w)"
    using duplicate_found[of raw_command e w s c k d entries x] by blast
next
  show "py_eq (JStr a) (JStr b) = (a = b)" by auto
next
  assume h: "raw_command \<noteq> [] \<and>
    format_command_with_llm e (files w) raw_command = Inr (JStr s) \<and>
    parse_llm_output s = Some (JObj c) \<and>
    dict_get c ''category'' = JStr k \<and> k \<noteq> [] \<and>
    json_load (files w) SHORTCUTS_FILE = Inr (JObj d) \<and>
    entries_at d k = Some entries \<and> list_all is_dict entries \<and>
    dict_get c ''command'' = JStr cmd \<and>
    process_command_logic e raw_command w = (Inr (Committed n), w1) \<and>
    raw2 \<noteq> [] \<and>
    format_command_with_llm e2 (files w1) raw2 = Inr (JStr s2) \<and>
    parse_llm_output s2 = Some (JObj c2) \<and>
    dict_get c2 ''category'' = JStr k \<and>
    dict_get c2 ''command'' = JStr cmd"
  then have r: "process_command_logic e2 raw2 w1 = (Inr DuplicateCommand, w1) \<and>
        (\<exists>d1 es. json_load (files w1) SHORTCUTS_FILE = Inr (JObj d1) \<and>
            map_of d1 k = Some (JArr es) \<and>
            length (filter (\<lambda>x. py_eq (command_of x) (JStr cmd)) es) = 1)"
    using second_submission[of raw_command e w s c k d entries cmd n w1 raw2 e2 s2 c2] by blast
  from r show "process_command_logic e2 raw2 w1 = (Inr DuplicateCommand, w1)" by blast
  from r show "\<exists>d1 es. json_load (files w1) SHORTCUTS_FILE = Inr (JObj d1) \<and>
            map_of d1 k = Some (JArr es) \<and>
            length (filter (\<lambda>x. py_eq (command_of x) (JStr cmd)) es) = 1" by blast
qed


theorem duplicate_command_aborts_witness:
  "JObj (entry ''git status'') \<in> set [JObj (entry ''git status'')] \<and>
   dict_get (entry ''git status'') ''command'' = JStr ''git status'' \<and>
   process_command_logic (example_env (json_dumps (candidate ''GIT'' ''git status'')) True)
      ''git status'' (example_world (json_dumps example_store))
     = (Inr DuplicateCommand, example_world (json_dumps example_store)) \<and>
   fst (process_command_logic (example_env (json_dumps (candidate ''GIT'' ''git log'')) True)
      ''git log'' (example_world (json_dumps example_store))) = Inr (Committed 5) \<and>
   fst (process_command_logic (example_env (json_dumps (candidate ''GIT'' ''git log'')) True)
      ''git log''
      (snd (process_command_logic (example_env (json_dumps (candidate ''GIT'' ''git log'')) True)
         ''git log'' (example_world (json_dumps example_store))))) = Inr DuplicateCommand"
proof -
  let ?e1 = "example_env (json_dumps (candidate ''GIT'' ''git status'')) True"
  let ?e2 = "example_env (json_dumps (candidate ''GIT'' ''git log'')) True"
  let ?w = "example_world (json_dumps example_store)"
  let ?c1 = "(''category'', JStr ''GIT'') # entry ''git status''"
  let ?c2 = "(''category'', JStr ''GIT'') # entry ''git log''"
  let ?d = "[(''GIT'', JArr [JObj (entry ''git status'')])]"
  let ?w1 = "snd (process_command_logic ?e2 ''git log'' ?w)"
  have a1: "format_command_with_llm ?e1 (files ?w) ''git status''
            = Inr (JStr (json_dumps (candidate ''GIT'' ''git status'')))" by code_simp
  have a2: "parse_llm_output (json_dumps (candidate ''GIT'' ''git status'')) = Some (JObj ?c1)" by code_simp
  have a3: "dict_get ?c1 ''category'' = JStr ''GIT''" by code_simp
  have a4: "json_load (files ?w) SHORTCUTS_FILE = Inr (JObj ?d)" by code_simp
  have a5: "dict_get (entry ''git status'') ''command'' = JStr ''git status''" by code_simp
  have a6: "dict_get ?c1 ''command'' = JStr ''git status''" by code_simp
  have A: "process_command_logic ?e1 ''git status'' ?w = (Inr DuplicateCommand, ?w)"
    using duplicate_command_aborts[of "''git status''" ?e1 ?w "json_dumps (candidate ''GIT'' ''git status'')"
        ?c1 "''GIT''" ?d "[JObj (entry ''git status'')]" "entry ''git status''" "''git status''"]
      a1 a2 a3 a4 a5 a6
    by simp
  have b1: "format_command_with_llm ?e2 (files ?w) ''git log''
            = Inr (JStr (json_dumps (candidate ''GIT'' ''git log'')))" by code_simp
  have b2: "parse_llm_output (json_dumps (candidate ''GIT'' ''git log'')) = Some (JObj ?c2)" by code_simp
  have b3: "dict_get ?c2 ''category'' = JStr ''GIT''" by code_simp
  have b4: "entries_at ?d ''GIT'' = Some [JObj (entry ''git status'')]" by code_simp
  have b5: "dict_get ?c2 ''command'' = JStr ''git log''" by code_simp
  have b6: "fst (process_command_logic ?e2 ''git log'' ?w) = Inr (Committed 5)" by code_simp
  then have b7: "process_command_logic ?e2 ''git log'' ?w = (Inr (Committed 5), ?w1)"
    by (metis surjective_pairing)
  have b8: "format_command_with_llm ?e2 (files ?w1) ''git log''
            = Inr (JStr (json_dumps (candidate ''GIT'' ''git log'')))" by code_simp
  have B: "process_command_logic ?e2 ''git log'' ?w1 = (Inr DuplicateCommand, ?w1)"
    using duplicate_command_aborts[where raw_command = "''git log''" and e = ?e2 and w = ?w
        and s = "json_dumps (candidate ''GIT'' ''git log'')" and c = ?c2 and k = "''GIT''" and d = ?d
        and entries = "[JObj (entry ''git status'')]" and cmd = "''git log''" and n = 5 and ?w1.0 = ?w1
        and ?raw2.0 = "''git log''" and ?e2.0 = ?e2 and ?s2.0 = "json_dumps (candidate ''GIT'' ''git log'')"
        and ?c2.0 = ?c2]
      b1 b2 b3 a4 b4 b5 b7 b8
    by simp
  from A B a5 b6 show ?thesis by simp
qed

section \<open>The category key\<close>

definition is_lower :: "char \<Rightarrow> bool" where
  "is_lower c = (97 \<le> (of_char c :: nat) \<and> (of_char c :: nat) \<le> 122)"

text \<open>
  C8, amended. The workflow never changes the case of a category. When a cycle commits a
  candidate whose category is the string \<open>k\<close>, the store read back from the file holds
  the entry under the key \<open>k\<close> itself, after the entries that key had; the keys of the
  store are the keys it had and \<open>k\<close>.
\<close>

theorem category_key_is_candidate_category:
  assumes "raw_command \<noteq> []"
    and "format_command_with_llm e (files w) raw_command = Inr (JStr s)"
    and "parse_llm_output s = Some (JObj c)"
    and "dict_get c ''category'' = JStr k" "k \<noteq> []"
    and "json_load (files w) SHORTCUTS_FILE = Inr (JObj d)"
    and "entries_at d k = Some entries" "list_all is_dict entries"
    and "process_command_logic e raw_command w = (Inr (Committed n), w')"
  shows "\<exists>d'. json_load (files w') SHORTCUTS_FILE = Inr (JObj d') \<and>
           map_of d' k = Some (JArr (entries @ [JObj (filter (\<lambda>kv. fst kv \<noteq> ''category'') c)])) \<and>
           set (map fst d') = insert k (set (map fst d))"
proof -
  let ?d' = "dict_set d k (JArr (entries @ [JObj (filter (\<lambda>kv. fst kv \<noteq> ''category'') c)]))"
  from cycle_on_candidate[OF assms(1-8), unfolded Let_def] assms(9)
  have f: "files w' = (files w)(SHORTCUTS_FILE \<mapsto> json_dumps (store_with d k entries c))"
    by (auto split: if_splits)
  have "json_load (files w') SHORTCUTS_FILE = Inr (JObj ?d')"
    using store_with_loads[OF assms(6) assms(3) assms(7)] f by (simp add: store_with_def)
  moreover have "set (map fst ?d') = insert k (set (map fst d))"
    using dict_set_keys[of d k] by simp
  ultimately show ?thesis by (intro exI[of _ ?d']) simp
qed

theorem category_key_is_candidate_category_witness:
  "entries_at [(''GIT'', JArr [JObj (entry ''git status'')])] ''Git'' = Some [] \<and>
   fst (process_command_logic (example_env (json_dumps (candidate ''Git'' ''git log'')) True)
      ''git log'' (example_world (json_dumps example_store))) = Inr (Committed 7) \<and>
   (\<exists>d'. json_load (files (snd (process_command_logic
              (example_env (json_dumps (candidate ''Git'' ''git log'')) True)
              ''git log'' (example_world (json_dumps example_store))))) SHORTCUTS_FILE = Inr (JObj d') \<and>
      map_of d' ''Git'' = Some (JArr [JObj (entry ''git log'')]) \<and>
      set (map fst d') = {''Git'', ''GIT''})"
proof -
  let ?e = "example_env (json_dumps (candidate ''Git'' ''git log'')) True"
  let ?w = "example_world (json_dumps example_store)"
  let ?c = "(''category'', JStr ''Git'') # entry ''git log''"
  let ?d = "[(''GIT'', JArr [JObj (entry ''git status'')])]"
  have h1: "''git log'' \<noteq> []" by simp
  have h2: "format_command_with_llm ?e (files ?w) ''git log''
            = Inr (JStr (json_dumps (candidate ''Git'' ''git log'')))" by code_simp
  have h3: "parse_llm_output (json_dumps (candidate ''Git'' ''git log'')) = Some (JObj ?c)" by code_simp
  have h4: "dict_get ?c ''category'' = JStr ''Git''" by code_simp
  have h5: "''Git'' \<noteq> []" by simp
  have h6: "json_load (files ?w) SHORTCUTS_FILE = Inr (JObj ?d)" by code_simp
  have h7: "entries_at ?d ''Git'' = Some []" by code_simp
  have h8: "list_all is_dict []" by simp
  have h9: "fst (process_command_logic ?e ''git log'' ?w) = Inr (Committed 7)" by code_simp
  then have h10: "process_command_logic ?e ''git log'' ?w
                  = (Inr (Committed 7), snd (process_command_logic ?e ''git log'' ?w))"
    by (metis surjective_pairing)
  have f: "filter (\<lambda>kv. fst kv \<noteq> ''category'') ?c = entry ''git log''"
    by (simp add: entry_def)
  from category_key_is_candidate_category[OF h1 h2 h3 h4 h5 h6 h7 h8 h10]
  have "\<exists>d'. json_load (files (snd (process_command_logic ?e ''git log'' ?w))) SHORTCUTS_FILE = Inr (JObj d') \<and>
      map_of d' ''Git'' = Some (JArr [JObj (entry ''git log'')]) \<and>
      set (map fst d') = {''Git'', ''GIT''}"
    using f by simp
  with h7 h9 show ?thesis by simp
qed

text \<open>
  The claim as stated fails. The prompt's own examples answer with the category
  \<open>Git\<close>; on that answer, confirmed by the user, the entry is stored under the new key
  \<open>Git\<close>, which has lower-case letters, next to the key \<open>GIT\<close> of the store.
\<close>

theorem category_key_not_upper_cased:
  "fst (process_command_logic (example_env (json_dumps (candidate ''Git'' ''git log'')) True)
      ''git log'' (example_world (json_dumps example_store))) = Inr (Committed 7) \<and>
   json_load (files (snd (process_command_logic
        (example_env (json_dumps (candidate ''Git'' ''git log'')) True)
        ''git log'' (example_world (json_dumps example_store))))) SHORTCUTS_FILE
     = Inr (JObj [(''GIT'', JArr [JObj (entry ''git status'')]),
                  (''Git'', JArr [JObj (entry ''git log'')])]) \<and>
   list_ex is_lower ''Git''"
  by code_simp

section \<open>What is validated\<close>

text \<open>
  C10, amended. Of the candidate only the category is checked. Whatever else the
  candidate holds: with a non-empty string category, entries none of which has a
  \<open>command\<close> equal to the candidate's, the approval of the user (and of the new category,
  when it is new), and a serialized new store with no fewer lines than the store file,
  the cycle commits the candidate as it is, less its \<open>category\<close> key. A candidate with no
  \<open>command\<close> key takes part in the duplicate check as \<open>None\<close>: an entry with no command, or
  a null one, makes it a duplicate; committed, it is stored with no \<open>command\<close> key.
\<close>

theorem only_category_is_validated:
  assumes "raw_command \<noteq> []"
    and "format_command_with_llm e (files w) raw_command = Inr (JStr s)"
    and "parse_llm_output s = Some (JObj c)"
    and "dict_get c ''category'' = JStr k" "k \<noteq> []"
    and "json_load (files w) SHORTCUTS_FILE = Inr (JObj d)"
    and "entries_at d k = Some entries" "list_all is_dict entries"
  shows "(\<not> list_ex (\<lambda>x. py_eq (command_of x) (dict_get c ''command'')) entries \<and>
          confirm e ConfirmApprove \<and>
          (map_of d k = None \<longrightarrow> confirm e ConfirmCreateCategory) \<and>
          get_line_count (files w) SHORTCUTS_FILE
            \<le> length (splitlines (json_dumps (store_with d k entries c)))
          \<longrightarrow> (\<exists>n. fst (process_command_logic e raw_command w) = Inr (Committed n)) \<and>
              files (snd (process_command_logic e raw_command w))
                = (files w)(SHORTCUTS_FILE \<mapsto> json_dumps (store_with d k entries c)) \<and>
              json_load (files (snd (process_command_logic e raw_command w))) SHORTCUTS_FILE
                = Inr (JObj (dict_set d k
                    (JArr (entries @ [JObj (filter (\<lambda>kv. fst kv \<noteq> ''category'') c)]))))) \<and>
         (map_of c ''command'' = None \<longrightarrow>
            dict_get c ''command'' = JNull \<and>
            map_of (filter (\<lambda>kv. fst kv \<noteq> ''category'') c) ''command'' = None \<and>
            (\<forall>x. JObj x \<in> set entries \<longrightarrow>
                 (map_of x ''command'' = None \<or> map_of x ''command'' = Some JNull) \<longrightarrow>
                 (map_of d k = None \<longrightarrow> confirm e ConfirmCreateCategory) \<longrightarrow>
                 fst (process_command_logic e raw_command w) = Inr DuplicateCommand))"
proof -
  note run = cycle_on_candidate[OF assms, unfolded Let_def]
  have a: "(\<exists>n. fst (process_command_logic e raw_command w) = Inr (Committed n)) \<and>
              files (snd (process_command_logic e raw_command w))
                = (files w)(SHORTCUTS_FILE \<mapsto> json_dumps (store_with d k entries c)) \<and>
              json_load (files (snd (process_command_logic e raw_command w))) SHORTCUTS_FILE
                = Inr (JObj (dict_set d k
                    (JArr (entries @ [JObj (filter (\<lambda>kv. fst kv \<noteq> ''category'') c)]))))"
    if h: "\<not> list_ex (\<lambda>x. py_eq (command_of x) (dict_get c ''command'')) entries"
      "confirm e ConfirmApprove" "map_of d k = None \<longrightarrow> confirm e ConfirmCreateCategory"
      "get_line_count (files w) SHORTCUTS_FILE
         \<le> length (splitlines (json_dumps (store_with d k entries c)))"
  proof -
    from run h
    have r: "\<exists>n. fst (process_command_logic e raw_command w) = Inr (Committed n)"
      and f: "files (snd (process_command_logic e raw_command w))
                = (files w)(SHORTCUTS_FILE \<mapsto> json_dumps (store_with d k entries c))"
      by auto
    from store_with_loads[OF assms(6) assms(3) assms(7)] f
    have "json_load (files (snd (process_command_logic e raw_command w))) SHORTCUTS_FILE
                = Inr (store_with d k entries c)" by simp
    with r f show ?thesis by (simp add: store_with_def)
  qed
  have b: "fst (process_command_logic e raw_command w) = Inr DuplicateCommand"
    if n: "map_of c ''command'' = None" and x: "JObj x \<in> set entries"
      and xn: "map_of x ''command'' = None \<or> map_of x ''command'' = Some JNull"
      and cc: "map_of d k = None \<longrightarrow> confirm e ConfirmCreateCategory" for x
  proof -
    from n have "dict_get c ''command'' = JNull" by (simp add: dict_get_def)
    moreover from xn have "command_of (JObj x) = JNull" by (auto simp: dict_get_def)
    ultimately have "list_ex (\<lambda>x. py_eq (command_of x) (dict_get c ''command'')) entries"
      using x by (auto simp: list_ex_iff intro!: bexI[of _ "JObj x"])
    with run cc show ?thesis by auto
  qed
  have c: "dict_get c ''command'' = JNull \<and>
           map_of (filter (\<lambda>kv. fst kv \<noteq> ''category'') c) ''command'' = None"
    if "map_of c ''command'' = None"
    using that by (simp add: dict_get_def map_of_filter_other)
  show ?thesis
  proof (rule conjI)
    show "\<not> list_ex (\<lambda>x. py_eq (command_of x) (dict_get c ''command'')) entries \<and>
          confirm e ConfirmApprove \<and>
          (map_of d k = None \<longrightarrow> confirm e ConfirmCreateCategory) \<and>
          get_line_count (files w) SHORTCUTS_FILE
            \<le> length (splitlines (json_dumps (store_with d k entries c)))
          \<longrightarrow> (\<exists>n. fst (process_command_logic e raw_command w) = Inr (Committed n)) \<and>
              files (snd (process_command_logic e raw_command w))
                = (files w)(SHORTCUTS_FILE \<mapsto> json_dumps (store_with d k entries c)) \<and>
              json_load (files (snd (process_command_logic e raw_command w))) SHORTCUTS_FILE
                = Inr (JObj (dict_set d k
                    (JArr (entries @ [JObj (filter (\<lambda>kv. fst kv \<noteq> ''category'') c)]))))"
      by (intro impI, elim conjE, rule a)
  next
    show "map_of c ''command'' = None \<longrightarrow>
            dict_get c ''command'' = JNull \<and>
            map_of (filter (\<lambda>kv. fst kv \<noteq> ''category'') c) ''command'' = None \<and>
            (\<forall>x. JObj x \<in> set entries \<longrightarrow>
                 (map_of x ''command'' = None \<or> map_of x ''command'' = Some JNull) \<longrightarrow>
                 (map_of d k = None \<longrightarrow> confirm e ConfirmCreateCategory) \<longrightarrow>
                 fst (process_command_logic e raw_command w) = Inr DuplicateCommand)"
    proof (intro impI conjI allI)
      assume n: "map_of c ''command'' = None"
      from c[OF n] show "dict_get c ''command'' = JNull" by simp
      from c[OF n] show "map_of (filter (\<lambda>kv. fst kv \<noteq> ''category'') c) ''command'' = None" by simp
      fix x
      assume "JObj x \<in> set entries"
        "map_of x ''command'' = None \<or> map_of x ''command'' = Some JNull"
        "map_of d k = None \<longrightarrow> confirm e ConfirmCreateCategory"
      with n show "fst (process_command_logic e raw_command w) = Inr DuplicateCommand"
        by (rule b)
    qed
  qed
qed


theorem only_category_is_validated_witness:
  "map_of [(''category'', JStr ''GIT''), (''description'', JInt 5)] ''command'' = None \<and>
   get_line_count (files (example_world (json_dumps example_store))) SHORTCUTS_FILE
     \<le> length (splitlines (json_dumps
          (store_with [(''GIT'', JArr [JObj (entry ''git status'')])] ''GIT''
             [JObj (entry ''git status'')] [(''category'', JStr ''GIT''), (''description'', JInt 5)]))) \<and>
   (\<exists>n. fst (process_command_logic
             (example_env (json_dumps (JObj [(''category'', JStr ''GIT''), (''description'', JInt 5)])) True)
             ''git log'' (example_world (json_dumps example_store))) = Inr (Committed n)) \<and>
   json_load (files (snd (process_command_logic
             (example_env (json_dumps (JObj [(''category'', JStr ''GIT''), (''description'', JInt 5)])) True)
             ''git log'' (example_world (json_dumps example_store))))) SHORTCUTS_FILE
     = Inr (JObj [(''GIT'', JArr [JObj (entry ''git status''), JObj [(''description'', JInt 5)]])]) \<and>
   fst (process_command_logic
             (example_env (json_dumps (JObj [(''category'', JStr ''GIT''), (''description'', JInt 5)])) True)
             ''git log''
             (example_world (json_dumps (JObj [(''GIT'', JArr [JObj [(''description'', JStr ''d'')]])]))))
     = Inr DuplicateCommand"
proof -
  let ?c = "[(''category'', JStr ''GIT''), (''description'', JInt 5)]"
  let ?e = "example_env (json_dumps (JObj ?c)) True"
  let ?w = "example_world (json_dumps example_store)"
  let ?d = "[(''GIT'', JArr [JObj (entry ''git status'')])]"
  let ?d2 = "[(''GIT'', JArr [JObj [(''description'', JStr ''d'')]])]"
  let ?w2 = "example_world (json_dumps (JObj ?d2))"
  have h1: "''git log'' \<noteq> []" by simp
  have h2: "format_command_with_llm ?e (files ?w) ''git log'' = Inr (JStr (json_dumps (JObj ?c)))"
    by code_simp
  have h3: "parse_llm_output (json_dumps (JObj ?c)) = Some (JObj ?c)" by code_simp
  have h4: "dict_get ?c ''category'' = JStr ''GIT''" by code_simp
  have h5: "''GIT'' \<noteq> []" by simp
  have h6: "json_load (files ?w) SHORTCUTS_FILE = Inr (JObj ?d)" by code_simp
  have h7: "entries_at ?d ''GIT'' = Some [JObj (entry ''git status'')]" by code_simp
  have h8: "list_all is_dict [JObj (entry ''git status'')]" by simp
  have g1: "\<not> list_ex (\<lambda>x. py_eq (command_of x) (dict_get ?c ''command'')) [JObj (entry ''git status'')]"
    by code_simp
  have g2: "confirm ?e ConfirmApprove" "confirm ?e ConfirmCreateCategory"
    by (simp_all add: example_env_def)
  have g3: "get_line_count (files ?w) SHORTCUTS_FILE
     \<le> length (splitlines (json_dumps (store_with ?d ''GIT'' [JObj (entry ''git status'')] ?c)))"
    by code_simp
  have n: "map_of ?c ''command'' = None" by simp
  have P: "\<not> list_ex (\<lambda>x. py_eq (command_of x) (dict_get ?c ''command'')) [JObj (entry ''git status'')] \<and>
          confirm ?e ConfirmApprove \<and>
          (map_of ?d ''GIT'' = None \<longrightarrow> confirm ?e ConfirmCreateCategory) \<and>
          get_line_count (files ?w) SHORTCUTS_FILE
            \<le> length (splitlines (json_dumps (store_with ?d ''GIT'' [JObj (entry ''git status'')] ?c)))"
    using g1 g2 g3 by blast
  have fl: "dict_set ?d ''GIT'' (JArr ([JObj (entry ''git status'')] @
              [JObj (filter (\<lambda>kv. fst kv \<noteq> ''category'') ?c)]))
            = [(''GIT'', JArr [JObj (entry ''git status''), JObj [(''description'', JInt 5)]])]"
    by simp
  note A0 = only_category_is_validated[OF h1 h2 h3 h4 h5 h6 h7 h8, THEN conjunct1, THEN mp, OF P]
  have A: "(\<exists>n. fst (process_command_logic ?e ''git log'' ?w) = Inr (Committed n)) \<and>
     json_load (files (snd (process_command_logic ?e ''git log'' ?w))) SHORTCUTS_FILE
       = Inr (JObj [(''GIT'', JArr [JObj (entry ''git status''), JObj [(''description'', JInt 5)]])])"
    using A0 unfolding fl by blast
  have k2: "format_command_with_llm ?e (files ?w2) ''git log'' = Inr (JStr (json_dumps (JObj ?c)))"
    by code_simp
  have k6: "json_load (files ?w2) SHORTCUTS_FILE = Inr (JObj ?d2)" by code_simp
  have k7: "entries_at ?d2 ''GIT'' = Some [JObj [(''description'', JStr ''d'')]]" by code_simp
  have k8: "list_all is_dict [JObj [(''description'', JStr ''d'')]]" by simp
  have x: "JObj [(''description'', JStr ''d'')] \<in> set [JObj [(''description'', JStr ''d'')]]" by simp
  have xn: "map_of [(''description'', JStr ''d'')] ''command'' = None
            \<or> map_of [(''description'', JStr ''d'')] ''command'' = Some JNull" by simp
  have cc: "map_of ?d2 ''GIT'' = None \<longrightarrow> confirm ?e ConfirmCreateCategory" by simp
  note B0 = only_category_is_validated[OF h1 k2 h3 h4 h5 k6 k7 k8, THEN conjunct2, THEN mp, OF n]
  have B: "fst (process_command_logic ?e ''git log'' ?w2) = Inr DuplicateCommand"
    using B0[THEN conjunct2, THEN conjunct2, THEN spec, THEN mp, THEN mp, THEN mp, OF x xn cc] .
  from n g3 A B show ?thesis by blast
qed

text \<open>
  The claim as stated fails. A candidate with no \<open>command\<close> and a number for a
  description, a category of the store, no duplicate, the user's approval; the store
  file has 18 lines, the new store serializes to 12: the safe writer refuses and the
  candidate is not committed.
\<close>

theorem candidate_not_committed_on_longer_file:
  "parse_llm_output (json_dumps (JObj [(''category'', JStr ''GIT''), (''description'', JInt 5)]))
     = Some (JObj [(''category'', JStr ''GIT''), (''description'', JInt 5)]) \<and>
   json_load (files (example_world (json_dumps example_store @ replicate 10 LF))) SHORTCUTS_FILE
     = Inr example_store \<and>
   \<not> list_ex (\<lambda>x. py_eq (command_of x) JNull) [JObj (entry ''git status'')] \<and>
   length (splitlines (json_dumps
      (JObj [(''GIT'', JArr [JObj (entry ''git status''), JObj [(''description'', JInt 5)]])]))) = 12 \<and>
   fst (process_command_logic
          (example_env (json_dumps (JObj [(''category'', JStr ''GIT''), (''description'', JInt 5)])) True)
          ''git log'' (example_world (json_dumps example_store @ replicate 10 LF)))
     = Inr WriteGuardViolation \<and>
   files (snd (process_command_logic
          (example_env (json_dumps (JObj [(''category'', JStr ''GIT''), (''description'', JInt 5)])) True)
          ''git log'' (example_world (json_dumps example_store @ replicate 10 LF)))) SHORTCUTS_FILE
     = Some (json_dumps example_store @ replicate 10 LF)"
  by code_simp

section \<open>The pull\<close>

text \<open>
  C6, amended. The pull overwrites the store file, with the 2-space-indented
  serialization of the record, exactly when the response is a JSON object whose \<open>record\<close>
  is truthy. A record that is absent, null, false, 0, or an empty string, list or object
  is reported as not found and the state is left as it was; so it is after a failed
  request and a body that is not JSON (both reported as a request error) and after a body
  that is not an object (reported as an unexpected error). The function returns a report
  in every case: nothing is raised.
\<close>

theorem pull_overwrites_on_truthy_record:
  "(response = BodyJson (JObj body) \<and> py_truthy (dict_get body ''record'') \<longrightarrow>
      sync_cloud_to_local response w =
        (Synced, w\<lparr>files := (files w)(''shortcuts.json'' \<mapsto> json_dumps (dict_get body ''record''))\<rparr>)) \<and>
   (response = BodyJson (JObj body) \<and> \<not> py_truthy (dict_get body ''record'') \<longrightarrow>
      sync_cloud_to_local response w = (NoRecordFound, w)) \<and>
   (response = BodyJson (JObj body) \<and> map_of body ''record'' = None \<longrightarrow>
      sync_cloud_to_local response w = (NoRecordFound, w)) \<and>
   (response = RequestException \<longrightarrow> sync_cloud_to_local response w = (RequestError, w)) \<and>
   (response = BodyNotJson \<longrightarrow> sync_cloud_to_local response w = (RequestError, w)) \<and>
   (fst (sync_cloud_to_local response w) \<noteq> Synced \<longrightarrow> snd (sync_cloud_to_local response w) = w) \<and>
   (distinct_keys (dict_get body ''record'') \<and> fst (sync_cloud_to_local (BodyJson (JObj body)) w) = Synced \<longrightarrow>
      json_load (files (snd (sync_cloud_to_local (BodyJson (JObj body)) w))) ''shortcuts.json''
        = Inr (dict_get body ''record''))"
proof -
  have "snd (sync_cloud_to_local response w) = w" if "fst (sync_cloud_to_local response w) \<noteq> Synced"
    using that
    by (auto simp: sync_cloud_to_local_def Let_def split: get_result.splits json.splits if_splits)
  moreover have "json_load (files (snd (sync_cloud_to_local (BodyJson (JObj body)) w))) ''shortcuts.json''
        = Inr (dict_get body ''record'')"
    if "distinct_keys (dict_get body ''record'')" "fst (sync_cloud_to_local (BodyJson (JObj body)) w) = Synced"
    using that by (auto simp: sync_cloud_to_local_def Let_def json_load_written split: if_splits)
  ultimately show ?thesis
    by (auto simp: sync_cloud_to_local_def Let_def dict_get_def)
qed

theorem pull_overwrites_on_truthy_record_witness:
  "py_truthy (dict_get [(''record'', example_store), (''metadata'', JObj [])] ''record'') \<and>
   fst (sync_cloud_to_local (BodyJson (JObj [(''record'', example_store), (''metadata'', JObj [])]))
          (example_world ''{}'')) = Synced \<and>
   files (snd (sync_cloud_to_local (BodyJson (JObj [(''record'', example_store), (''metadata'', JObj [])]))
          (example_world ''{}''))) ''shortcuts.json'' = Some (json_dumps example_store) \<and>
   sync_cloud_to_local RequestException (example_world ''{}'') = (RequestError, example_world ''{}'') \<and>
   sync_cloud_to_local BodyNotJson (example_world ''{}'') = (RequestError, example_world ''{}'') \<and>
   sync_cloud_to_local (BodyJson (JObj [(''metadata'', JObj [])])) (example_world ''{}'')
     = (NoRecordFound, example_world ''{}'')"
proof -
  let ?b = "[(''record'', example_store), (''metadata'', JObj [])]"
  let ?w = "example_world ''{}''"
  have t: "py_truthy (dict_get ?b ''record'')" by code_simp
  have r: "dict_get ?b ''record'' = example_store" by code_simp
  have a: "sync_cloud_to_local (BodyJson (JObj ?b)) ?w =
        (Synced, ?w\<lparr>files := (files ?w)(''shortcuts.json'' \<mapsto> json_dumps (dict_get ?b ''record''))\<rparr>)"
    using pull_overwrites_on_truthy_record[of "BodyJson (JObj ?b)" ?b ?w] t by blast
  have b: "sync_cloud_to_local RequestException ?w = (RequestError, ?w)"
    using pull_overwrites_on_truthy_record[of RequestException "[]" ?w] by blast
  have c: "sync_cloud_to_local BodyNotJson ?w = (RequestError, ?w)"
    using pull_overwrites_on_truthy_record[of BodyNotJson "[]" ?w] by blast
  have d: "sync_cloud_to_local (BodyJson (JObj [(''metadata'', JObj [])])) ?w = (NoRecordFound, ?w)"
    using pull_overwrites_on_truthy_record[of "BodyJson (JObj [(''metadata'', JObj [])])"
        "[(''metadata'', JObj [])]" ?w] by simp
  from a r have "fst (sync_cloud_to_local (BodyJson (JObj ?b)) ?w) = Synced"
    "files (snd (sync_cloud_to_local (BodyJson (JObj ?b)) ?w)) ''shortcuts.json'' = Some (json_dumps example_store)"
    by simp_all
  with t b c d show ?thesis by blast
qed

text \<open>
  The claim as stated fails. The response holds a record, the empty store \<open>{}\<close>; the pull
  reports that no record was found and the store file keeps its content.
\<close>

theorem pull_ignores_empty_record:
  "map_of [(''record'', JObj []), (''metadata'', JObj [])] ''record'' = Some (JObj []) \<and>
   fst (sync_cloud_to_local (BodyJson (JObj [(''record'', JObj []), (''metadata'', JObj [])]))
          (example_world (json_dumps example_store))) = NoRecordFound \<and>
   files (snd (sync_cloud_to_local (BodyJson (JObj [(''record'', JObj []), (''metadata'', JObj [])]))
          (example_world (json_dumps example_store)))) ''shortcuts.json''
     = Some (json_dumps example_store) \<and>
   json_dumps example_store \<noteq> json_dumps (JObj [])"
  by code_simp

section \<open>Pull, then push\<close>





end
